theory Spec2Isabelle
  imports Complex_Main "HOL-Library.AList"
begin

section \<open>Data model of the Prospector game server\<close>

text \<open>
  The server (\<^verbatim>\<open>prospector/server/server.py\<close>, class \<^verbatim>\<open>GameServer\<close>) keeps every game
  as a Python dictionary inside \<^verbatim>\<open>self.games\<close>. The dictionaries with a fixed set of
  keys are records here; the dictionaries keyed by identifiers (\<^verbatim>\<open>self.games\<close>,
  \<^verbatim>\<open>self.players\<close>, \<^verbatim>\<open>self.recordings\<close>) are association lists in insertion order,
  read with \<^const>\<open>map_of\<close> and written with \<^const>\<open>AList.update\<close> and
  \<^const>\<open>AList.delete\<close>.

  The cell keys \<^verbatim>\<open>"type"\<close> and \<^verbatim>\<open>"value"\<close> are the fields \<open>land_type\<close> and
  \<open>land_value\<close>; the player keys \<^verbatim>\<open>"id"\<close> and \<^verbatim>\<open>"name"\<close> are \<open>pid\<close> and
  \<open>pname\<close>. Readings of \<^verbatim>\<open>time.time()\<close> are real numbers handed in by the caller
  (\<open>now k\<close> is the \<open>k\<close>-th reading inside one call); UUIDs and the random land types
  are parameters as well. The socket, the host and port, and the table of registered
  users play no part in the operations modelled and are left out.
\<close>

datatype py_error = IndexError | ValueError

record cell =
  north :: bool
  east :: bool
  south :: bool
  west :: bool
  owner :: "string option"
  land_type :: string
  land_value :: int

record player =
  pid :: string
  pname :: string
  score :: int

record game =
  game_id :: string
  grid_size :: int
  num_players :: int
  players :: "player list"
  current_player_index :: nat
  grid :: "cell list list"
  game_over :: bool
  winner :: "string option"
  created_at :: string
  last_activity :: real
  turn_start_time :: real
  turn_time_limit :: int

record stats =
  stat_name :: string
  wins :: int
  losses :: int
  draws :: int

record move =
  timestamp :: real
  move_player_id :: string
  move_player_name :: string
  move_x :: int
  move_y :: int
  move_orientation :: string
  move_land_claimed :: bool

record response =
  status :: string
  message :: string
  resp_game_id :: "string option"
  resp_game_state :: "game option"
  resp_land_claimed :: "bool option"

record server =
  games :: "(string \<times> game) list"
  directory :: "(string \<times> stats) list"
  recordings :: "(string \<times> move list) list"
  lock_held :: bool

text \<open>
  A call either never returns (\<open>Hang\<close>: it waits for a lock that is never released),
  raises a Python exception, or returns a value; the last two leave a server state behind.
\<close>

datatype 'a outcome = Hang | Raise py_error server | Return 'a server

fun post :: "'a outcome \<Rightarrow> server option" where
  "post Hang = None"
| "post (Raise e s) = Some s"
| "post (Return r s) = Some s"

text \<open>\<^verbatim>\<open>GameServer.__init__\<close>: empty dictionaries and a free lock.\<close>

definition init_server :: server where
  "init_server = \<lparr>games = [], directory = [], recordings = [], lock_held = False\<rparr>"

text \<open>
  \<^verbatim>\<open>with self.lock:\<close> on a \<^verbatim>\<open>threading.Lock\<close>, which is not re-entrant: acquiring it
  while it is held blocks. Leaving the block releases the lock, also by an exception.
\<close>

definition with_lock :: "(server \<Rightarrow> 'a outcome) \<Rightarrow> server \<Rightarrow> 'a outcome" where
  "with_lock body s =
     (if lock_held s then Hang
      else (case body (s\<lparr>lock_held := True\<rparr>) of
              Hang \<Rightarrow> Hang
            | Raise e s' \<Rightarrow> Raise e (s'\<lparr>lock_held := False\<rparr>)
            | Return r s' \<Rightarrow> Return r (s'\<lparr>lock_held := False\<rparr>)))"

definition error_response :: "string \<Rightarrow> response" where
  "error_response msg =
     \<lparr>status = ''error'', message = msg, resp_game_id = None,
      resp_game_state = None, resp_land_claimed = None\<rparr>"

subsection \<open>Python indexing\<close>

text \<open>
  \<^verbatim>\<open>xs[i]\<close>: a negative index counts from the end, an index out of range raises
  \<^verbatim>\<open>IndexError\<close> (\<open>None\<close> here; the callers turn it into \<open>Raise IndexError\<close>).
\<close>

definition py_index :: "'a list \<Rightarrow> int \<Rightarrow> nat option" where
  "py_index xs i =
     (let n = int (length xs); j = (if i < 0 then i + n else i)
      in if 0 \<le> j \<and> j < n then Some (nat j) else None)"

text \<open>
  \<^verbatim>\<open>cell = grid[y][x]\<close> yields a reference to the cell dictionary; the reference is the
  pair of the row and the column index. Rows and cells are created one by one in
  \<^verbatim>\<open>initialize_grid\<close>, so no two positions share a dictionary.
\<close>

definition cell_ref :: "cell list list \<Rightarrow> int \<Rightarrow> int \<Rightarrow> (nat \<times> nat) option" where
  "cell_ref g x y =
     (case py_index g y of
        None \<Rightarrow> None
      | Some j \<Rightarrow> (case py_index (g ! j) x of
                     None \<Rightarrow> None
                   | Some i \<Rightarrow> Some (j, i)))"

definition modify_at :: "cell list list \<Rightarrow> nat \<Rightarrow> nat \<Rightarrow> (cell \<Rightarrow> cell) \<Rightarrow> cell list list" where
  "modify_at g j i f = g[j := (g ! j)[i := f (g ! j ! i)]]"

definition grid_cell :: "cell list list \<Rightarrow> int \<Rightarrow> int \<Rightarrow> cell option" where
  "grid_cell g x y =
     (case cell_ref g x y of None \<Rightarrow> None | Some (j, i) \<Rightarrow> Some (g ! j ! i))"

text \<open>\<^verbatim>\<open>grid[y][x][key] = v\<close>: the cell dictionary is looked up and changed in place.\<close>

definition grid_modify ::
  "cell list list \<Rightarrow> int \<Rightarrow> int \<Rightarrow> (cell \<Rightarrow> cell) \<Rightarrow> cell list list option" where
  "grid_modify g x y f =
     (case cell_ref g x y of None \<Rightarrow> None | Some (j, i) \<Rightarrow> Some (modify_at g j i f))"

text \<open>\<^verbatim>\<open>cell[orientation]\<close> and \<^verbatim>\<open>cell[orientation] = True\<close> for the four fence keys.\<close>

definition get_fence :: "cell \<Rightarrow> string \<Rightarrow> bool" where
  "get_fence c orientation =
     (if orientation = ''north'' then north c
      else if orientation = ''east'' then east c
      else if orientation = ''south'' then south c
      else west c)"

definition set_fence :: "string \<Rightarrow> cell \<Rightarrow> cell" where
  "set_fence orientation c =
     (if orientation = ''north'' then c\<lparr>north := True\<rparr>
      else if orientation = ''east'' then c\<lparr>east := True\<rparr>
      else if orientation = ''south'' then c\<lparr>south := True\<rparr>
      else c\<lparr>west := True\<rparr>)"

definition orientations :: "string list" where
  "orientations = [''north'', ''east'', ''south'', ''west'']"

section \<open>Grid functions\<close>

text \<open>
  \<^verbatim>\<open>initialize_grid(size)\<close>. \<open>pick y x\<close> is the land type that \<^verbatim>\<open>random.choices\<close>
  draws for the cell of row \<open>y\<close> and column \<open>x\<close>.
\<close>

definition new_cell :: "string \<Rightarrow> cell" where
  "new_cell lt =
     \<lparr>north = False, east = False, south = False, west = False, owner = None,
      land_type = lt,
      land_value = (if lt = ''copper'' then 2 else if lt = ''gold'' then 3 else 1)\<rparr>"

definition initialize_grid :: "(nat \<Rightarrow> nat \<Rightarrow> string) \<Rightarrow> int \<Rightarrow> cell list list" where
  "initialize_grid pick sz =
     map (\<lambda>y. map (\<lambda>x. new_cell (pick y x)) [0..<nat sz]) [0..<nat sz]"

text \<open>\<^verbatim>\<open>check_land_enclosed(grid, x, y)\<close>.\<close>

definition four_fences :: "cell \<Rightarrow> bool" where
  "four_fences c = (north c \<and> east c \<and> south c \<and> west c)"

definition check_land_enclosed :: "cell list list \<Rightarrow> int \<Rightarrow> int \<Rightarrow> bool option" where
  "check_land_enclosed g x y =
     (case grid_cell g x y of
        None \<Rightarrow> None
      | Some c \<Rightarrow> Some (north c \<and> east c \<and> south c \<and> west c \<and> owner c = None))"

text \<open>\<^verbatim>\<open>check_game_over(game)\<close>: the two nested iterations return False at the first cell
  that lacks a fence.\<close>

definition check_game_over :: "game \<Rightarrow> bool" where
  "check_game_over g = list_all (list_all four_fences) (grid g)"

text \<open>
  The block \<^verbatim>\<open># Update adjacent cell's fence\<close> of \<^verbatim>\<open>place_fence\<close>: an
  \<^verbatim>\<open>if/elif\<close> chain on the orientation and the position.
\<close>

definition update_adjacent ::
  "int \<Rightarrow> cell list list \<Rightarrow> int \<Rightarrow> int \<Rightarrow> string \<Rightarrow> cell list list option" where
  "update_adjacent sz g x y orientation =
     (if orientation = ''north'' \<and> y > 0 then grid_modify g x (y - 1) (\<lambda>c. c\<lparr>south := True\<rparr>)
      else if orientation = ''east'' \<and> x < sz - 1 then grid_modify g (x + 1) y (\<lambda>c. c\<lparr>west := True\<rparr>)
      else if orientation = ''south'' \<and> y < sz - 1 then grid_modify g x (y + 1) (\<lambda>c. c\<lparr>north := True\<rparr>)
      else if orientation = ''west'' \<and> x > 0 then grid_modify g (x - 1) y (\<lambda>c. c\<lparr>east := True\<rparr>)
      else Some g)"

section \<open>Player directory and end of game\<close>

text \<open>\<^verbatim>\<open>max(...)\<close> of a generator: \<^verbatim>\<open>ValueError\<close> on an empty one.\<close>

fun py_max :: "int list \<Rightarrow> int option" where
  "py_max [] = None"
| "py_max (x # xs) = Some (fold max xs x)"

text \<open>
  The passes of \<^verbatim>\<open>end_game\<close> over the players: one counter of the directory entry of
  each seated player goes up, when the entry exists.
\<close>

definition credit_result :: "string \<Rightarrow> player \<Rightarrow> (string \<times> stats) list \<Rightarrow> (string \<times> stats) list" where
  "credit_result winner_id p d =
     (case map_of d (pid p) of
        None \<Rightarrow> d
      | Some st \<Rightarrow>
          if pid p = winner_id then AList.update (pid p) (st\<lparr>wins := wins st + 1\<rparr>) d
          else AList.update (pid p) (st\<lparr>losses := losses st + 1\<rparr>) d)"

definition credit_draw :: "player \<Rightarrow> (string \<times> stats) list \<Rightarrow> (string \<times> stats) list" where
  "credit_draw p d =
     (case map_of d (pid p) of
        None \<Rightarrow> d
      | Some st \<Rightarrow> AList.update (pid p) (st\<lparr>draws := draws st + 1\<rparr>) d)"

text \<open>\<^verbatim>\<open>end_game(game)\<close>: returns the game and the directory as it leaves them.\<close>

definition end_game ::
  "game \<Rightarrow> (string \<times> stats) list \<Rightarrow> (game \<times> (string \<times> stats) list) option" where
  "end_game g d =
     (case py_max (map score (players g)) of
        None \<Rightarrow> None
      | Some max_score \<Rightarrow>
          let winners = map pid (filter (\<lambda>p. score p = max_score) (players g))
          in if length winners = 1
             then Some (g\<lparr>game_over := True, winner := Some (winners ! 0)\<rparr>,
                        fold (credit_result (winners ! 0)) (players g) d)
             else Some (g\<lparr>game_over := True, winner := Some ''draw''\<rparr>,
                        fold credit_draw (players g) d))"

section \<open>Operations of the server\<close>

text \<open>\<^verbatim>\<open>if not game_id or game_id not in self.games\<close> and \<^verbatim>\<open>game = self.games[game_id]\<close>:
  a missing, null or empty identifier and an unknown one are rejected alike.\<close>

definition find_game :: "server \<Rightarrow> string option \<Rightarrow> (string \<times> game) option" where
  "find_game s gid_opt =
     (case gid_opt of
        None \<Rightarrow> None
      | Some gid \<Rightarrow>
          if gid = [] then None
          else (case map_of (games s) gid of None \<Rightarrow> None | Some g \<Rightarrow> Some (gid, g)))"

text \<open>The game dictionary is changed in place; the model writes it back under its key.\<close>

definition put_game :: "string \<Rightarrow> game \<Rightarrow> server \<Rightarrow> server" where
  "put_game gid g s = s\<lparr>games := AList.update gid g (games s)\<rparr>"

definition default_name :: "string \<Rightarrow> string" where
  "default_name player_id = ''Player_'' @ take 8 player_id"

text \<open>\<^verbatim>\<open>if player_id not in self.players: self.players[player_id] = {...}\<close>.\<close>

definition ensure_stats :: "string \<Rightarrow> string \<Rightarrow> (string \<times> stats) list \<Rightarrow> (string \<times> stats) list" where
  "ensure_stats player_id player_name d =
     (case map_of d player_id of
        None \<Rightarrow> AList.update player_id \<lparr>stat_name = player_name, wins = 0, losses = 0, draws = 0\<rparr> d
      | Some st \<Rightarrow> d)"

subsection \<open>\<^verbatim>\<open>create_game\<close>\<close>

text \<open>
  The message fields are options (\<open>None\<close> when the key is missing, where
  \<^verbatim>\<open>message.get\<close> supplies the default). \<open>new_id\<close> is the UUID drawn for the game,
  \<open>created\<close> the ISO date string.
\<close>

definition create_game_body ::
  "string option \<Rightarrow> int option \<Rightarrow> int option \<Rightarrow> string \<Rightarrow> string \<Rightarrow> string \<Rightarrow>
   (nat \<Rightarrow> real) \<Rightarrow> (nat \<Rightarrow> nat \<Rightarrow> string) \<Rightarrow> server \<Rightarrow> response outcome" where
  "create_game_body player_name_opt grid_size_opt num_players_opt player_id new_id created now pick s =
     (let player_name = (case player_name_opt of None \<Rightarrow> default_name player_id | Some n \<Rightarrow> n);
          gs = (case grid_size_opt of None \<Rightarrow> 5 | Some n \<Rightarrow> n);
          np = (case num_players_opt of None \<Rightarrow> 2 | Some n \<Rightarrow> n)
      in if gs < 2 \<or> gs > 10 then Return (error_response ''Invalid grid size (2-10)'') s
         else if np < 2 \<or> np > 4 then Return (error_response ''Invalid number of players (2-4)'') s
         else
           let game_state =
                 \<lparr>game_id = new_id, grid_size = gs, num_players = np,
                  players = [\<lparr>pid = player_id, pname = player_name, score = 0\<rparr>],
                  current_player_index = 0,
                  grid = initialize_grid pick gs,
                  game_over = False, winner = None, created_at = created,
                  last_activity = now 0, turn_start_time = now 1, turn_time_limit = 60\<rparr>
           in Return
                \<lparr>status = ''success'', message = ''Game created successfully'',
                 resp_game_id = Some new_id, resp_game_state = Some game_state,
                 resp_land_claimed = None\<rparr>
                (s\<lparr>games := AList.update new_id game_state (games s),
                   directory := ensure_stats player_id player_name (directory s),
                   recordings := AList.update new_id [] (recordings s)\<rparr>))"

definition create_game ::
  "string option \<Rightarrow> int option \<Rightarrow> int option \<Rightarrow> string \<Rightarrow> string \<Rightarrow> string \<Rightarrow>
   (nat \<Rightarrow> real) \<Rightarrow> (nat \<Rightarrow> nat \<Rightarrow> string) \<Rightarrow> server \<Rightarrow> response outcome" where
  "create_game player_name_opt grid_size_opt num_players_opt player_id new_id created now pick =
     with_lock (create_game_body player_name_opt grid_size_opt num_players_opt player_id
                  new_id created now pick)"

subsection \<open>\<^verbatim>\<open>join_game\<close>\<close>

definition join_game_body ::
  "string option \<Rightarrow> string option \<Rightarrow> string \<Rightarrow> (nat \<Rightarrow> real) \<Rightarrow> server \<Rightarrow> response outcome" where
  "join_game_body gid_opt player_name_opt player_id now s =
     (let player_name = (case player_name_opt of None \<Rightarrow> default_name player_id | Some n \<Rightarrow> n)
      in case find_game s gid_opt of
           None \<Rightarrow> Return (error_response ''Invalid game ID'') s
         | Some (gid, g) \<Rightarrow>
             if int (length (players g)) \<ge> num_players g
             then Return (error_response ''Game is full'') s
             else if list_ex (\<lambda>p. pid p = player_id) (players g)
             then Return (error_response ''Player already in game'') s
             else
               let g' = g\<lparr>players := players g @ [\<lparr>pid = player_id, pname = player_name, score = 0\<rparr>],
                          last_activity := now 0\<rparr>
               in Return
                    \<lparr>status = ''success'', message = ''Game joined successfully'',
                     resp_game_id = Some gid, resp_game_state = Some g',
                     resp_land_claimed = None\<rparr>
                    ((put_game gid g' s)
                       \<lparr>directory := ensure_stats player_id player_name (directory s)\<rparr>))"

definition join_game ::
  "string option \<Rightarrow> string option \<Rightarrow> string \<Rightarrow> (nat \<Rightarrow> real) \<Rightarrow> server \<Rightarrow> response outcome" where
  "join_game gid_opt player_name_opt player_id now =
     with_lock (join_game_body gid_opt player_name_opt player_id now)"

subsection \<open>\<^verbatim>\<open>place_fence\<close>\<close>

text \<open>
  The second half of \<^verbatim>\<open>place_fence\<close>, from \<^verbatim>\<open># Place the fence\<close> on: \<open>(j, i)\<close> is
  the reference \<^verbatim>\<open>cell\<close> and \<open>ci\<close> the position of \<^verbatim>\<open>current_player\<close>, both fetched
  by the checks before. An exception leaves behind what was changed up to it. Every cell
  comes from \<^verbatim>\<open>initialize_grid\<close> and has the key \<^verbatim>\<open>"value"\<close>, so that
  \<^verbatim>\<open>cell.get("value", 1)\<close> is the field \<open>land_value\<close>.
\<close>

definition place_fence_apply ::
  "string \<Rightarrow> game \<Rightarrow> nat \<Rightarrow> nat \<Rightarrow> nat \<Rightarrow> int \<Rightarrow> int \<Rightarrow> string \<Rightarrow> string \<Rightarrow>
   (nat \<Rightarrow> real) \<Rightarrow> server \<Rightarrow> response outcome" where
  "place_fence_apply gid g ci j i x y orientation player_id now s =
     (let grid1 = modify_at (grid g) j i (set_fence orientation)
      in case update_adjacent (grid_size g) grid1 x y orientation of
           None \<Rightarrow> Raise IndexError (put_game gid (g\<lparr>grid := grid1\<rparr>) s)
         | Some grid2 \<Rightarrow>
             (case check_land_enclosed grid2 x y of
                None \<Rightarrow> Raise IndexError (put_game gid (g\<lparr>grid := grid2\<rparr>) s)
              | Some land_claimed \<Rightarrow>
                  let current_player = players g ! ci;
                      grid3 = (if land_claimed
                               then modify_at grid2 j i (\<lambda>c. c\<lparr>owner := Some (pid current_player)\<rparr>)
                               else grid2);
                      players3 = (if land_claimed
                                  then (players g)[ci := current_player
                                         \<lparr>score := score current_player + land_value (grid2 ! j ! i)\<rparr>]
                                  else players g);
                      index3 = (if \<not> land_claimed
                                then (current_player_index g + 1) mod length (players g)
                                else current_player_index g);
                      g3 = g\<lparr>grid := grid3, players := players3, last_activity := now 0,
                             current_player_index := index3, turn_start_time := now 1\<rparr>;
                      entry = \<lparr>timestamp = now 2, move_player_id = player_id,
                               move_player_name = pname current_player,
                               move_x = x, move_y = y, move_orientation = orientation,
                               move_land_claimed = land_claimed\<rparr>;
                      recs = AList.update gid
                               ((case map_of (recordings s) gid of None \<Rightarrow> [] | Some ms \<Rightarrow> ms) @ [entry])
                               (recordings s)
                  in if check_game_over g3
                     then (case end_game g3 (directory s) of
                             None \<Rightarrow> Raise ValueError ((put_game gid g3 s)\<lparr>recordings := recs\<rparr>)
                           | Some (g4, d4) \<Rightarrow>
                               Return
                                 \<lparr>status = ''success'', message = ''Fence placed successfully'',
                                  resp_game_id = None, resp_game_state = Some g4,
                                  resp_land_claimed = Some land_claimed\<rparr>
                                 ((put_game gid g4 s)\<lparr>recordings := recs, directory := d4\<rparr>))
                     else Return
                            \<lparr>status = ''success'', message = ''Fence placed successfully'',
                             resp_game_id = None, resp_game_state = Some g3,
                             resp_land_claimed = Some land_claimed\<rparr>
                            ((put_game gid g3 s)\<lparr>recordings := recs\<rparr>)))"

text \<open>
  The checks of \<^verbatim>\<open>place_fence\<close>, in the order of the source: game identifier, turn,
  game over, position present, position in bounds, orientation, fence already there.
\<close>

definition place_fence_body ::
  "string option \<Rightarrow> int option \<Rightarrow> int option \<Rightarrow> string option \<Rightarrow> string \<Rightarrow>
   (nat \<Rightarrow> real) \<Rightarrow> server \<Rightarrow> response outcome" where
  "place_fence_body gid_opt x_opt y_opt orientation_opt player_id now s =
     (case find_game s gid_opt of
        None \<Rightarrow> Return (error_response ''Invalid game ID'') s
      | Some (gid, g) \<Rightarrow>
          (case py_index (players g) (int (current_player_index g)) of
             None \<Rightarrow> Raise IndexError s
           | Some ci \<Rightarrow>
               if pid (players g ! ci) \<noteq> player_id
               then Return (error_response ''Not your turn'') s
               else if game_over g
               then Return (error_response ''Game is over'') s
               else (case (x_opt, y_opt) of
                       (Some x, Some y) \<Rightarrow>
                         if x < 0 \<or> x \<ge> grid_size g \<or> y < 0 \<or> y \<ge> grid_size g
                         then Return (error_response ''Position out of bounds'') s
                         else (case orientation_opt of
                                 None \<Rightarrow> Return (error_response ''Invalid orientation'') s
                               | Some orientation \<Rightarrow>
                                   if orientation \<notin> set orientations
                                   then Return (error_response ''Invalid orientation'') s
                                   else (case cell_ref (grid g) x y of
                                           None \<Rightarrow> Raise IndexError s
                                         | Some (j, i) \<Rightarrow>
                                             if get_fence (grid g ! j ! i) orientation
                                             then Return (error_response ''Fence already exists'') s
                                             else place_fence_apply gid g ci j i x y orientation
                                                    player_id now s))
                     | _ \<Rightarrow> Return (error_response ''Invalid position'') s)))"

definition place_fence ::
  "string option \<Rightarrow> int option \<Rightarrow> int option \<Rightarrow> string option \<Rightarrow> string \<Rightarrow>
   (nat \<Rightarrow> real) \<Rightarrow> server \<Rightarrow> response outcome" where
  "place_fence gid_opt x_opt y_opt orientation_opt player_id now =
     with_lock (place_fence_body gid_opt x_opt y_opt orientation_opt player_id now)"

subsection \<open>\<^verbatim>\<open>handle_player_disconnect\<close> and \<^verbatim>\<open>leave_game\<close>\<close>

text \<open>The \<^verbatim>\<open>for i, player in enumerate(...)\<close> loop with its \<^verbatim>\<open>break\<close>.\<close>

fun first_index :: "('a \<Rightarrow> bool) \<Rightarrow> 'a list \<Rightarrow> nat option" where
  "first_index P [] = None"
| "first_index P (x # xs) =
     (if P x then Some 0 else (case first_index P xs of None \<Rightarrow> None | Some k \<Rightarrow> Some (Suc k)))"

text \<open>\<^verbatim>\<open># Update remaining players' stats (they win)\<close>: one step of the loop.\<close>

definition credit_forfeit :: "string \<Rightarrow> player \<Rightarrow> (string \<times> stats) list \<Rightarrow> (string \<times> stats) list" where
  "credit_forfeit player_id p d =
     (if pid p \<noteq> player_id
      then (case map_of d (pid p) of
              None \<Rightarrow> d
            | Some st \<Rightarrow> AList.update (pid p) (st\<lparr>wins := wins st + 1\<rparr>) d)
      else d)"

definition handle_player_disconnect_body :: "string \<Rightarrow> string \<Rightarrow> server \<Rightarrow> response outcome" where
  "handle_player_disconnect_body player_id gid s =
     (case map_of (games s) gid of
        None \<Rightarrow> Return (error_response ''Game not found'') s
      | Some g \<Rightarrow>
          (case first_index (\<lambda>p. pid p = player_id) (players g) of
             None \<Rightarrow> Return (error_response ''Player not in game'') s
           | Some player_index \<Rightarrow>
               if length (players g) \<le> 1
               then Return
                      \<lparr>status = ''success'', message = ''Game removed'', resp_game_id = None,
                       resp_game_state = None, resp_land_claimed = None\<rparr>
                      (s\<lparr>games := AList.delete gid (games s)\<rparr>)
               else
                 let d1 = fold (credit_forfeit player_id) (players g) (directory s);
                     d2 = (case map_of d1 player_id of
                             None \<Rightarrow> d1
                           | Some st \<Rightarrow> AList.update player_id (st\<lparr>losses := losses st + 1\<rparr>) d1);
                     ps = take player_index (players g) @ drop (Suc player_index) (players g);
                     g1 = g\<lparr>players := ps,
                            current_player_index :=
                              (if current_player_index g \<ge> length ps then 0
                               else current_player_index g)\<rparr>;
                     g2 = (if length ps = 1
                           then g1\<lparr>game_over := True, winner := Some (pid (ps ! 0))\<rparr>
                           else g1)
                 in Return
                      \<lparr>status = ''success'', message = ''Player left game'', resp_game_id = None,
                       resp_game_state = Some g2, resp_land_claimed = None\<rparr>
                      ((put_game gid g2 s)\<lparr>directory := d2\<rparr>)))"

definition handle_player_disconnect :: "string \<Rightarrow> string \<Rightarrow> server \<Rightarrow> response outcome" where
  "handle_player_disconnect player_id gid = with_lock (handle_player_disconnect_body player_id gid)"

text \<open>
  \<^verbatim>\<open>leave_game\<close> takes the lock and then calls \<^verbatim>\<open>handle_player_disconnect\<close>, which
  takes the same lock again.
\<close>

definition leave_game :: "string option \<Rightarrow> string \<Rightarrow> server \<Rightarrow> response outcome" where
  "leave_game gid_opt player_id =
     with_lock (\<lambda>s. case find_game s gid_opt of
                       None \<Rightarrow> Return (error_response ''Invalid game ID'') s
                     | Some (gid, g) \<Rightarrow> handle_player_disconnect player_id gid s)"

subsection \<open>\<^verbatim>\<open>check_inactivity\<close>\<close>

text \<open>
  The body of the \<^verbatim>\<open>for\<close> loop for one game: \<open>None\<close> is the \<^verbatim>\<open>IndexError\<close> of
  \<^verbatim>\<open>game["players"][current_player_index]\<close>.
\<close>

definition timeout_game :: "real \<Rightarrow> game \<Rightarrow> game option" where
  "timeout_game current_time g =
     (if game_over g then Some g
      else if current_time - turn_start_time g > 60
      then (case py_index (players g) (int (current_player_index g)) of
              None \<Rightarrow> None
            | Some ci \<Rightarrow>
                Some (g\<lparr>current_player_index := (current_player_index g + 1) mod length (players g),
                         turn_start_time := current_time,
                         last_activity := current_time\<rparr>))
      else Some g)"

text \<open>
  The loop over \<^verbatim>\<open>list(self.games.items())\<close>; the flag tells whether an exception
  stopped it, in which case the games after that point are left as they were.
\<close>

fun timeout_games :: "real \<Rightarrow> (string \<times> game) list \<Rightarrow> bool \<times> (string \<times> game) list" where
  "timeout_games current_time [] = (False, [])"
| "timeout_games current_time ((k, g) # rest) =
     (case timeout_game current_time g of
        None \<Rightarrow> (True, (k, g) # rest)
      | Some g' \<Rightarrow>
          (case timeout_games current_time rest of
             (raised, rest') \<Rightarrow> (raised, (k, g') # rest')))"

text \<open>One pass of the \<^verbatim>\<open>while self.running\<close> loop, after the \<^verbatim>\<open>sleep\<close>.\<close>

definition check_inactivity :: "real \<Rightarrow> server \<Rightarrow> unit outcome" where
  "check_inactivity current_time =
     with_lock (\<lambda>s. case timeout_games current_time (games s) of
                       (True, gs) \<Rightarrow> Raise IndexError (s\<lparr>games := gs\<rparr>)
                     | (False, gs) \<Rightarrow> Return () (s\<lparr>games := gs\<rparr>))"

section \<open>Reachable states\<close>

text \<open>
  The states the server can be in between two calls, starting from
  \<^const>\<open>init_server\<close>. The flag \<open>leaving\<close> says whether players may leave (by a
  \<^verbatim>\<open>leave_game\<close> message or by the disconnect clean-up of \<^verbatim>\<open>handle_client\<close>).
  Logging in and the read-only requests are not part of it.
\<close>

inductive reachable :: "bool \<Rightarrow> server \<Rightarrow> bool" for leaving :: bool where
  r_init: "reachable leaving init_server"
| r_create: "reachable leaving s \<Longrightarrow>
     post (create_game player_name_opt grid_size_opt num_players_opt player_id new_id created now pick s)
       = Some s' \<Longrightarrow> reachable leaving s'"
| r_join: "reachable leaving s \<Longrightarrow>
     post (join_game gid_opt player_name_opt player_id now s) = Some s' \<Longrightarrow> reachable leaving s'"
| r_place: "reachable leaving s \<Longrightarrow>
     post (place_fence gid_opt x_opt y_opt orientation_opt player_id now s) = Some s' \<Longrightarrow>
     reachable leaving s'"
| r_timeout: "reachable leaving s \<Longrightarrow>
     post (check_inactivity current_time s) = Some s' \<Longrightarrow> reachable leaving s'"
| r_disconnect: "leaving \<Longrightarrow> reachable leaving s \<Longrightarrow>
     post (handle_player_disconnect player_id gid s) = Some s' \<Longrightarrow> reachable leaving s'"
| r_leave: "leaving \<Longrightarrow> reachable leaving s \<Longrightarrow>
     post (leave_game gid_opt player_id s) = Some s' \<Longrightarrow> reachable leaving s'"

section \<open>Invariants and example runs\<close>

text \<open>
  What every game stored in a reachable server satisfies: somebody is seated and the turn
  index points at a seat; the seated identifiers differ; the grid is a square of
  \<open>grid_size\<close> rows and columns; a fence between two cells is recorded on both; land values
  are positive and scores are not negative.
\<close>

definition square :: "int \<Rightarrow> cell list list \<Rightarrow> bool" where
  "square n g \<longleftrightarrow> 2 \<le> n \<and> length g = nat n \<and> (\<forall>row \<in> set g. length row = nat n)"

definition mirrored :: "cell list list \<Rightarrow> bool" where
  "mirrored g \<longleftrightarrow>
     (\<forall>j < length g. \<forall>i < length g.
        (Suc i < length g \<longrightarrow> east (g ! j ! i) = west (g ! j ! Suc i)) \<and>
        (Suc j < length g \<longrightarrow> south (g ! j ! i) = north (g ! Suc j ! i)))"

definition game_ok :: "game \<Rightarrow> bool" where
  "game_ok g \<longleftrightarrow>
     players g \<noteq> [] \<and> current_player_index g < length (players g) \<and>
     distinct (map pid (players g)) \<and>
     square (grid_size g) (grid g) \<and> mirrored (grid g) \<and>
     (\<forall>j < length (grid g). \<forall>i < length (grid g ! j). 0 < land_value (grid g ! j ! i)) \<and>
     (\<forall>p \<in> set (players g). 0 \<le> score p)"

text \<open>The two sides of score conservation.\<close>

definition score_sum :: "game \<Rightarrow> int" where
  "score_sum g = sum_list (map score (players g))"

definition worth :: "cell \<Rightarrow> int" where
  "worth c = (if owner c = None then 0 else land_value c)"

definition owned_value :: "game \<Rightarrow> int" where
  "owned_value g = sum_list (map (\<lambda>row. sum_list (map worth row)) (grid g))"

text \<open>The owners of all cells, row by row.\<close>

definition owners :: "game \<Rightarrow> string option list list" where
  "owners g = map (map owner) (grid g)"

text \<open>
  An example run: Ann creates a game of size 2 for two players, Bob joins, and the two
  place the twelve fences of the grid in turn. \<open>play\<close> submits the moves one after the
  other and stops at the first one that is not accepted.
\<close>

definition clock0 :: "nat \<Rightarrow> real" where
  "clock0 = (\<lambda>k. 0)"

definition all_regular :: "nat \<Rightarrow> nat \<Rightarrow> string" where
  "all_regular = (\<lambda>y x. ''regular'')"

fun play :: "(string \<times> int \<times> int \<times> string) list \<Rightarrow> server \<Rightarrow> server option" where
  "play [] s = Some s"
| "play ((p, x, y, d) # ms) s =
     (case place_fence (Some ''g1'') (Some x) (Some y) (Some d) p clock0 s of
        Return r s' \<Rightarrow> if status r = ''success'' then play ms s' else None
      | _ \<Rightarrow> None)"

definition ex_created :: server where
  "ex_created =
     the (post (create_game (Some ''Ann'') (Some 2) (Some 2) ''A'' ''g1'' ''2024-01-01'' clock0
                  all_regular init_server))"

definition ex_joined :: server where
  "ex_joined = the (post (join_game (Some ''g1'') (Some ''Bob'') ''B'' clock0 ex_created))"

definition moves12 :: "(string \<times> int \<times> int \<times> string) list" where
  "moves12 =
     [(''A'', 1, 0, ''north''), (''B'', 1, 0, ''east''), (''A'', 1, 0, ''south''),
      (''B'', 0, 0, ''east''), (''A'', 0, 0, ''north''), (''B'', 0, 0, ''west''),
      (''A'', 0, 0, ''south''), (''A'', 0, 1, ''west''), (''B'', 0, 1, ''south''),
      (''A'', 0, 1, ''east''), (''A'', 1, 1, ''east''), (''B'', 1, 1, ''south'')]"

definition ex_middle :: server where
  "ex_middle = the (play (take 7 moves12) ex_joined)"

definition ex_final :: server where
  "ex_final = the (play moves12 ex_joined)"

text \<open>
  The cell across the fence: row and column of the cell that shares the fence on side
  \<open>d\<close> of the cell in column \<open>x\<close> and row \<open>y\<close>, when there is one inside the grid, and
  the name of the shared fence as that cell sees it.
\<close>

definition neighbour :: "int \<Rightarrow> int \<Rightarrow> int \<Rightarrow> string \<Rightarrow> (nat \<times> nat) option" where
  "neighbour n x y d =
     (if d = ''north'' then (if 0 < y then Some (nat (y - 1), nat x) else None)
      else if d = ''east'' then (if x + 1 < n then Some (nat y, nat (x + 1)) else None)
      else if d = ''south'' then (if y + 1 < n then Some (nat (y + 1), nat x) else None)
      else if d = ''west'' then (if 0 < x then Some (nat y, nat (x - 1)) else None)
      else None)"

definition opposite :: "string \<Rightarrow> string" where
  "opposite d =
     (if d = ''north'' then ''south''
      else if d = ''east'' then ''west''
      else if d = ''south'' then ''north''
      else ''east'')"

text \<open>The positions (row, column) at which two grids of the same shape differ.\<close>

definition changed_cells :: "cell list list \<Rightarrow> cell list list \<Rightarrow> (nat \<times> nat) set" where
  "changed_cells g g' = {(j, i). j < length g \<and> i < length (g ! j) \<and> g' ! j ! i \<noteq> g ! j ! i}"

text \<open>The grid with the fence on side \<open>d\<close> of the cell in column \<open>x\<close> and row \<open>y\<close>
  recorded on that cell and on the cell across the fence.\<close>

definition fenced :: "int \<Rightarrow> cell list list \<Rightarrow> int \<Rightarrow> int \<Rightarrow> string \<Rightarrow> cell list list" where
  "fenced n g x y d =
     (case neighbour n x y d of
        None \<Rightarrow> modify_at g (nat y) (nat x) (set_fence d)
      | Some (j2, i2) \<Rightarrow>
          modify_at (modify_at g (nat y) (nat x) (set_fence d)) j2 i2 (set_fence (opposite d)))"

text \<open>
  The game as an accepted move leaves it before the end of the game is looked at: the
  fence is on the grid, the cell is claimed when it is enclosed and has no owner, and
  the turn moves on when nothing was claimed.
\<close>

definition claims :: "game \<Rightarrow> int \<Rightarrow> int \<Rightarrow> string \<Rightarrow> bool" where
  "claims g x y d =
     (let c = fenced (grid_size g) (grid g) x y d ! nat y ! nat x
      in north c \<and> east c \<and> south c \<and> west c \<and> owner c = None)"

definition moved :: "game \<Rightarrow> int \<Rightarrow> int \<Rightarrow> string \<Rightarrow> (nat \<Rightarrow> real) \<Rightarrow> game" where
  "moved g x y d now =
     (let grid2 = fenced (grid_size g) (grid g) x y d;
          ci = current_player_index g;
          current_player = players g ! ci;
          land_claimed = claims g x y d
      in g\<lparr>grid := (if land_claimed
                     then modify_at grid2 (nat y) (nat x) (\<lambda>c. c\<lparr>owner := Some (pid current_player)\<rparr>)
                     else grid2),
            players := (if land_claimed
                        then (players g)[ci := current_player
                               \<lparr>score := score current_player + land_value (grid2 ! nat y ! nat x)\<rparr>]
                        else players g),
            last_activity := now 0,
            current_player_index := (if \<not> land_claimed then (ci + 1) mod length (players g) else ci),
            turn_start_time := now 1\<rparr>)"

text \<open>A property of every game the server stores; no identifier is stored twice.\<close>

definition all_games :: "(game \<Rightarrow> bool) \<Rightarrow> server \<Rightarrow> bool" where
  "all_games P s \<longleftrightarrow>
     distinct (map fst (games s)) \<and> (\<forall>gid g. map_of (games s) gid = Some g \<longrightarrow> P g)"

text \<open>
  The invariant of the reachable states: the game is well formed, the seated scores never
  exceed the value of the owned land, and the two are equal as long as nobody may leave.
\<close>

definition game_inv :: "bool \<Rightarrow> game \<Rightarrow> bool" where
  "game_inv leaving g \<longleftrightarrow>
     game_ok g \<and> score_sum g \<le> owned_value g \<and> (\<not> leaving \<longrightarrow> score_sum g = owned_value g)"

text \<open>The games of the example run, and single moves of it with their answers.\<close>

definition ex_joined_game :: game where
  "ex_joined_game = the (map_of (games ex_joined) ''g1'')"

definition ex_final_game :: game where
  "ex_final_game = the (map_of (games ex_final) ''g1'')"

fun returned :: "'a outcome \<Rightarrow> ('a \<times> server) option" where
  "returned (Return r s) = Some (r, s)"
| "returned (Raise e s) = None"
| "returned Hang = None"

definition ex_move1 :: "response outcome" where
  "ex_move1 = place_fence (Some ''g1'') (Some 1) (Some 0) (Some ''north'') ''A'' clock0 ex_joined"

definition ex_move1_response :: response where
  "ex_move1_response = fst (the (returned ex_move1))"

definition ex_move1_state :: server where
  "ex_move1_state = snd (the (returned ex_move1))"

definition ex_eleven :: server where
  "ex_eleven = the (play (take 11 moves12) ex_joined)"

definition ex_move12 :: "response outcome" where
  "ex_move12 = place_fence (Some ''g1'') (Some 1) (Some 1) (Some ''south'') ''B'' clock0 ex_eleven"

definition ex_move12_response :: response where
  "ex_move12_response = fst (the (returned ex_move12))"

definition ex_move12_state :: server where
  "ex_move12_state = snd (the (returned ex_move12))"

definition ex_move12_game :: game where
  "ex_move12_game = the (map_of (games ex_move12_state) ''g1'')"

text \<open>The highest score among the seated players.\<close>

definition top_score :: "game \<Rightarrow> int" where
  "top_score g = Max (set (map score (players g)))"

definition ex_east :: "response outcome" where
  "ex_east = place_fence (Some ''g1'') (Some 0) (Some 0) (Some ''east'') ''A'' clock0 ex_joined"

definition ex_east_response :: response where
  "ex_east_response = fst (the (returned ex_east))"

definition ex_east_state :: server where
  "ex_east_state = snd (the (returned ex_east))"

definition ex_east_game :: game where
  "ex_east_game = the (map_of (games ex_east_state) ''g1'')"

text \<open>Ann disconnects after the seventh move of the example run, in which she claimed a cell.\<close>

definition ex_left :: server where
  "ex_left = the (post (handle_player_disconnect ''A'' ''g1'' ex_middle))"

definition ex_left_game :: game where
  "ex_left_game = the (map_of (games ex_left) ''g1'')"

text \<open>
  Moves and timeouts before the game is full: Ann alone in the game for two of the example
  run places a fence; in a game for three with Ann and Bob seated, the inactivity check
  runs 100 seconds after the turn began.
\<close>

definition ex_created_game :: game where
  "ex_created_game = the (map_of (games ex_created) ''g1'')"

definition ex_solo :: "response outcome" where
  "ex_solo = place_fence (Some ''g1'') (Some 0) (Some 0) (Some ''north'') ''A'' clock0 ex_created"

definition ex_solo_response :: response where
  "ex_solo_response = fst (the (returned ex_solo))"

definition ex_solo_state :: server where
  "ex_solo_state = snd (the (returned ex_solo))"

definition ex_solo_game :: game where
  "ex_solo_game = the (map_of (games ex_solo_state) ''g1'')"

definition ex_lobby :: server where
  "ex_lobby =
     the (post (join_game (Some ''g3'') (Some ''Bob'') ''B'' clock0
       (the (post (create_game (Some ''Ann'') (Some 2) (Some 3) ''A'' ''g3'' ''2024-01-01'' clock0
                     all_regular init_server)))))"

definition ex_lobby_game :: game where
  "ex_lobby_game = the (map_of (games ex_lobby) ''g3'')"

definition ex_swept :: server where
  "ex_swept = the (post (check_inactivity 100 ex_lobby))"

definition ex_swept_game :: game where
  "ex_swept_game = the (map_of (games ex_swept) ''g3'')"


text \<open>Bob disconnects after the last move of the example run.\<close>

definition ex_forfeit :: "response outcome" where
  "ex_forfeit = handle_player_disconnect ''B'' ''g1'' ex_move12_state"

definition ex_forfeit_response :: response where
  "ex_forfeit_response = fst (the (returned ex_forfeit))"

definition ex_forfeit_state :: server where
  "ex_forfeit_state = snd (the (returned ex_forfeit))"

text \<open>The example run after its fourth move.\<close>

definition ex_four :: server where
  "ex_four = the (play (take 4 moves12) ex_joined)"

definition ex_four_game :: game where
  "ex_four_game = the (map_of (games ex_four) ''g1'')"

section \<open>The lock\<close>

lemma unlock_id: "\<not> lock_held s \<Longrightarrow> s\<lparr>lock_held := False\<rparr> = s"
  by (cases s) simp

lemma post_with_lock:
  assumes "post (with_lock body s) = Some s'"
  shows "\<not> lock_held s \<and> \<not> lock_held s'"
  using assms by (auto simp: with_lock_def split: if_splits outcome.splits)

lemma reachable_unlocked: "reachable leaving s \<Longrightarrow> \<not> lock_held s"
proof (induction rule: reachable.induct)
  case r_init
  show ?case by (simp add: init_server_def)
next
  case (r_create s player_name_opt grid_size_opt num_players_opt player_id new_id created now pick s')
  then show ?case using post_with_lock unfolding create_game_def by blast
next
  case (r_join s gid_opt player_name_opt player_id now s')
  then show ?case using post_with_lock unfolding join_game_def by blast
next
  case (r_place s gid_opt x_opt y_opt orientation_opt player_id now s')
  then show ?case using post_with_lock unfolding place_fence_def by blast
next
  case (r_timeout s current_time s')
  then show ?case using post_with_lock unfolding check_inactivity_def by blast
next
  case (r_disconnect s player_id gid s')
  then show ?case using post_with_lock unfolding handle_player_disconnect_def by blast
next
  case (r_leave s gid_opt player_id s')
  then show ?case using post_with_lock unfolding leave_game_def by blast
qed

lemma py_index_nat: "py_index xs (int k) = (if k < length xs then Some k else None)"
  by (simp add: py_index_def Let_def)

lemma py_index_nonneg:
  "0 \<le> i \<Longrightarrow> py_index xs i = (if nat i < length xs then Some (nat i) else None)"
  by (auto simp: py_index_def Let_def)

lemma find_game_Some:
  "find_game s gid_opt = Some (gid, g) \<longleftrightarrow> gid_opt = Some gid \<and> gid \<noteq> [] \<and> map_of (games s) gid = Some g"
  by (auto simp: find_game_def split: option.splits)

section \<open>Grid\<close>

lemma length_modify_at [simp]: "length (modify_at g j i f) = length g"
  by (simp add: modify_at_def)

lemma length_row_modify_at [simp]: "length (modify_at g j i f ! k) = length (g ! k)"
  by (cases "j < length g"; cases "k = j") (simp_all add: modify_at_def list_update_beyond)

lemma nth_modify_at:
  "j' < length g \<Longrightarrow> i' < length (g ! j') \<Longrightarrow>
   modify_at g j i f ! j' ! i' = (if j' = j \<and> i' = i then f (g ! j ! i) else g ! j' ! i')"
  by (cases "j' = j"; cases "i' = i") (simp_all add: modify_at_def)

lemma square_rows: "square n g \<Longrightarrow> j < nat n \<Longrightarrow> length (g ! j) = nat n"
  using nth_mem[of j g] by (simp add: square_def)

lemma square_modify_at: "square n g \<Longrightarrow> square n (modify_at g j i f)"
proof -
  assume sq: "square n g"
  have "length row = nat n" if "row \<in> set (modify_at g j i f)" for row
  proof -
    from that obtain k where "k < length g" "row = modify_at g j i f ! k"
      by (auto simp: in_set_conv_nth)
    then show ?thesis using square_rows[OF sq, of k] sq by (simp add: square_def)
  qed
  then show ?thesis using sq by (simp add: square_def)
qed

lemma cell_ref_square:
  assumes "square n g" "0 \<le> x" "x < n" "0 \<le> y" "y < n"
  shows "cell_ref g x y = Some (nat y, nat x)"
proof -
  have "nat y < length g" using assms by (simp add: square_def)
  moreover have "nat x < length (g ! nat y)" using assms by (simp add: square_rows)
  ultimately show ?thesis using assms by (simp add: cell_ref_def py_index_nonneg)
qed

lemma grid_modify_square:
  assumes "square n g" "0 \<le> x" "x < n" "0 \<le> y" "y < n"
  shows "grid_modify g x y f = Some (modify_at g (nat y) (nat x) f)"
  using cell_ref_square[OF assms] by (simp add: grid_modify_def)

lemma grid_cell_square:
  assumes "square n g" "0 \<le> x" "x < n" "0 \<le> y" "y < n"
  shows "grid_cell g x y = Some (g ! nat y ! nat x)"
  using cell_ref_square[OF assms] by (simp add: grid_cell_def)

lemma set_fence_funs:
  "set_fence ''north'' = north_update (\<lambda>_. True)"
  "set_fence ''east'' = east_update (\<lambda>_. True)"
  "set_fence ''south'' = south_update (\<lambda>_. True)"
  "set_fence ''west'' = west_update (\<lambda>_. True)"
  by (rule ext, simp add: set_fence_def)+

lemma update_adjacent_square:
  assumes "square n g" "0 \<le> x" "x < n" "0 \<le> y" "y < n" "d \<in> set orientations"
  shows "update_adjacent n (modify_at g (nat y) (nat x) (set_fence d)) x y d = Some (fenced n g x y d)"
proof -
  have sq: "square n (modify_at g (nat y) (nat x) (set_fence d))"
    using assms(1) by (rule square_modify_at)
  have r: "x < n - 1 \<longleftrightarrow> x + 1 < n" "y < n - 1 \<longleftrightarrow> y + 1 < n" by auto
  from assms(6) consider "d = ''north''" | "d = ''east''" | "d = ''south''" | "d = ''west''"
    by (auto simp: orientations_def)
  then show ?thesis
  proof cases
    case 1
    then show ?thesis using assms(2-5) sq
      by (simp add: update_adjacent_def fenced_def neighbour_def opposite_def grid_modify_square set_fence_funs)
  next
    case 2
    then show ?thesis using assms(2-5) sq
      by (simp add: update_adjacent_def fenced_def neighbour_def opposite_def grid_modify_square set_fence_funs r)
  next
    case 3
    then show ?thesis using assms(2-5) sq
      by (simp add: update_adjacent_def fenced_def neighbour_def opposite_def grid_modify_square set_fence_funs r)
  next
    case 4
    then show ?thesis using assms(2-5) sq
      by (simp add: update_adjacent_def fenced_def neighbour_def opposite_def grid_modify_square set_fence_funs)
  qed
qed

lemma neighbour_in_grid:
  assumes "0 \<le> x" "x < n" "0 \<le> y" "y < n" "neighbour n x y d = Some (a, b)"
  shows "a < nat n \<and> b < nat n \<and> (a, b) \<noteq> (nat y, nat x)"
  using assms by (auto simp: neighbour_def split: if_splits)

lemma fenced_nth:
  assumes "square n g" "0 \<le> x" "x < n" "0 \<le> y" "y < n" "a < nat n" "b < nat n"
  shows "fenced n g x y d ! a ! b =
           (if (a, b) = (nat y, nat x) then set_fence d (g ! a ! b)
            else if neighbour n x y d = Some (a, b) then set_fence (opposite d) (g ! a ! b)
            else g ! a ! b)"
proof -
  have la: "a < length g" and lb: "b < length (g ! a)"
    using assms(1,6,7) square_rows[OF assms(1), of a] by (simp_all add: square_def)
  show ?thesis
  proof (cases "neighbour n x y d")
    case None
    then show ?thesis using la lb by (simp add: fenced_def nth_modify_at)
  next
    case (Some p)
    obtain j2 i2 where p: "p = (j2, i2)" by (cases p)
    have ne: "(j2, i2) \<noteq> (nat y, nat x)"
      using neighbour_in_grid[OF assms(2-5)] Some p by blast
    show ?thesis using la lb Some p ne
      by (auto simp: fenced_def nth_modify_at)
  qed
qed

lemma square_fenced: "square n g \<Longrightarrow> square n (fenced n g x y d)"
  by (auto simp: fenced_def square_modify_at split: option.splits)


lemma orientation_cases:
  assumes "d \<in> set orientations"
  obtains "d = ''north''" | "d = ''east''" | "d = ''south''" | "d = ''west''"
  using assms by (auto simp: orientations_def)

lemma fenced_fields:
  assumes "square n g" "0 \<le> x" "x < n" "0 \<le> y" "y < n" "a < nat n" "b < nat n"
    and "d \<in> set orientations"
  shows "north (fenced n g x y d ! a ! b) \<longleftrightarrow>
           north (g ! a ! b) \<or> (d = ''north'' \<and> a = nat y \<and> b = nat x) \<or>
           (d = ''south'' \<and> neighbour n x y d = Some (a, b))"
    and "east (fenced n g x y d ! a ! b) \<longleftrightarrow>
           east (g ! a ! b) \<or> (d = ''east'' \<and> a = nat y \<and> b = nat x) \<or>
           (d = ''west'' \<and> neighbour n x y d = Some (a, b))"
    and "south (fenced n g x y d ! a ! b) \<longleftrightarrow>
           south (g ! a ! b) \<or> (d = ''south'' \<and> a = nat y \<and> b = nat x) \<or>
           (d = ''north'' \<and> neighbour n x y d = Some (a, b))"
    and "west (fenced n g x y d ! a ! b) \<longleftrightarrow>
           west (g ! a ! b) \<or> (d = ''west'' \<and> a = nat y \<and> b = nat x) \<or>
           (d = ''east'' \<and> neighbour n x y d = Some (a, b))"
    and "owner (fenced n g x y d ! a ! b) = owner (g ! a ! b)"
    and "land_value (fenced n g x y d ! a ! b) = land_value (g ! a ! b)"
    and "land_type (fenced n g x y d ! a ! b) = land_type (g ! a ! b)"
proof -
  note fn = fenced_nth[OF assms(1-7)]
  have ds: "d = ''north'' \<or> d = ''east'' \<or> d = ''south'' \<or> d = ''west''"
    using assms(8) by (auto simp: orientations_def)
  have ne: "neighbour n x y d = Some (a, b) \<Longrightarrow> (a, b) \<noteq> (nat y, nat x)"
    using neighbour_in_grid[OF assms(2-5), of d a b] by blast
  show "north (fenced n g x y d ! a ! b) \<longleftrightarrow>
           north (g ! a ! b) \<or> (d = ''north'' \<and> a = nat y \<and> b = nat x) \<or>
           (d = ''south'' \<and> neighbour n x y d = Some (a, b))"
    using ds ne by (elim disjE) (auto simp: fn set_fence_def opposite_def)
  show "east (fenced n g x y d ! a ! b) \<longleftrightarrow>
           east (g ! a ! b) \<or> (d = ''east'' \<and> a = nat y \<and> b = nat x) \<or>
           (d = ''west'' \<and> neighbour n x y d = Some (a, b))"
    using ds ne by (elim disjE) (auto simp: fn set_fence_def opposite_def)
  show "south (fenced n g x y d ! a ! b) \<longleftrightarrow>
           south (g ! a ! b) \<or> (d = ''south'' \<and> a = nat y \<and> b = nat x) \<or>
           (d = ''north'' \<and> neighbour n x y d = Some (a, b))"
    using ds ne by (elim disjE) (auto simp: fn set_fence_def opposite_def)
  show "west (fenced n g x y d ! a ! b) \<longleftrightarrow>
           west (g ! a ! b) \<or> (d = ''west'' \<and> a = nat y \<and> b = nat x) \<or>
           (d = ''east'' \<and> neighbour n x y d = Some (a, b))"
    using ds ne by (elim disjE) (auto simp: fn set_fence_def opposite_def)
  show "owner (fenced n g x y d ! a ! b) = owner (g ! a ! b)"
    using ds ne by (elim disjE) (auto simp: fn set_fence_def opposite_def)
  show "land_value (fenced n g x y d ! a ! b) = land_value (g ! a ! b)"
    using ds ne by (elim disjE) (auto simp: fn set_fence_def opposite_def)
  show "land_type (fenced n g x y d ! a ! b) = land_type (g ! a ! b)"
    using ds ne by (elim disjE) (auto simp: fn set_fence_def opposite_def)
qed

lemma neighbour_nat:
  assumes "0 \<le> x" "x < n" "0 \<le> y" "y < n"
  shows "neighbour n x y ''north'' = Some (a, b) \<longleftrightarrow> Suc a = nat y \<and> b = nat x"
    and "neighbour n x y ''south'' = Some (a, b) \<longleftrightarrow> a = Suc (nat y) \<and> a < nat n \<and> b = nat x"
    and "neighbour n x y ''east'' = Some (a, b) \<longleftrightarrow> a = nat y \<and> b = Suc (nat x) \<and> b < nat n"
    and "neighbour n x y ''west'' = Some (a, b) \<longleftrightarrow> a = nat y \<and> Suc b = nat x"
  using assms by (auto simp: neighbour_def)

lemma mirrored_fenced:
  assumes "square n g" "0 \<le> x" "x < n" "0 \<le> y" "y < n" "d \<in> set orientations"
    and "mirrored g"
  shows "mirrored (fenced n g x y d)"
proof -
  have len: "length (fenced n g x y d) = nat n" "length g = nat n"
    using square_fenced[OF assms(1), of x y d] assms(1) by (simp_all add: square_def)
  have m: "\<And>j i. j < nat n \<Longrightarrow> i < nat n \<Longrightarrow> Suc i < nat n \<Longrightarrow> east (g ! j ! i) = west (g ! j ! Suc i)"
    "\<And>j i. j < nat n \<Longrightarrow> i < nat n \<Longrightarrow> Suc j < nat n \<Longrightarrow> south (g ! j ! i) = north (g ! Suc j ! i)"
    using assms(7) by (simp_all add: mirrored_def len)
  note nb = neighbour_nat[OF assms(2-5)]
  show ?thesis
    unfolding mirrored_def len
  proof (intro allI impI conjI)
    fix j i assume b: "j < nat n" "i < nat n" "Suc i < nat n"
    note f1 = fenced_fields(2)[OF assms(1-5) b(1) b(2) assms(6)]
    note f2 = fenced_fields(4)[OF assms(1-5) b(1) b(3) assms(6)]
    show "east (fenced n g x y d ! j ! i) = west (fenced n g x y d ! j ! Suc i)"
      unfolding f1 f2 m(1)[OF b]
      using assms(6) b by (cases rule: orientation_cases) (auto simp: nb)
  next
    fix j i assume b: "j < nat n" "i < nat n" "Suc j < nat n"
    note f1 = fenced_fields(3)[OF assms(1-5) b(1) b(2) assms(6)]
    note f2 = fenced_fields(1)[OF assms(1-5) b(3) b(2) assms(6)]
    show "south (fenced n g x y d ! j ! i) = north (fenced n g x y d ! Suc j ! i)"
      unfolding f1 f2 m(2)[OF b]
      using assms(6) b by (cases rule: orientation_cases) (auto simp: nb)
  qed
qed

section \<open>The example run\<close>

lemma ex_created_run:
  "post (create_game (Some ''Ann'') (Some 2) (Some 2) ''A'' ''g1'' ''2024-01-01'' clock0
           all_regular init_server) = Some ex_created"
  unfolding ex_created_def by code_simp

lemma ex_joined_run:
  "post (join_game (Some ''g1'') (Some ''Bob'') ''B'' clock0 ex_created) = Some ex_joined"
  unfolding ex_joined_def by code_simp

lemma ex_middle_run: "play (take 7 moves12) ex_joined = Some ex_middle"
  unfolding ex_middle_def by code_simp

lemma ex_final_run: "play moves12 ex_joined = Some ex_final"
  unfolding ex_final_def by code_simp

lemma play_reachable:
  "reachable leaving s \<Longrightarrow> play ms s = Some s' \<Longrightarrow> reachable leaving s'"
proof (induction ms arbitrary: s)
  case Nil
  then show ?case by simp
next
  case (Cons m ms)
  obtain p x y d where m: "m = (p, x, y, d)" by (cases m)
  from Cons.prems(2) obtain r s1 where
    step: "place_fence (Some ''g1'') (Some x) (Some y) (Some d) p clock0 s = Return r s1"
    and rest: "play ms s1 = Some s'"
    by (auto simp: m split: outcome.splits if_splits)
  have "post (place_fence (Some ''g1'') (Some x) (Some y) (Some d) p clock0 s) = Some s1"
    using step by simp
  with Cons.prems(1) have "reachable leaving s1"
    by (rule r_place)
  then show ?case using rest by (rule Cons.IH)
qed

lemma ex_created_reachable: "reachable leaving ex_created"
  using r_init ex_created_run by (rule r_create)

lemma ex_joined_reachable: "reachable leaving ex_joined"
  using ex_created_reachable ex_joined_run by (rule r_join)

lemma ex_middle_reachable: "reachable leaving ex_middle"
  using ex_joined_reachable ex_middle_run by (rule play_reachable)

lemma ex_final_reachable: "reachable leaving ex_final"
  using ex_joined_reachable ex_final_run by (rule play_reachable)

section \<open>Leaving\<close>

lemma leave_game_hangs:
  assumes "\<not> lock_held s" and "map_of (games s) gid = Some g" and "gid \<noteq> []"
  shows "leave_game (Some gid) player_id s = Hang"
  using assms
  by (simp add: leave_game_def with_lock_def find_game_def handle_player_disconnect_def)

text \<open>
  The disconnect clean-up of \<^verbatim>\<open>handle_client\<close> calls \<^verbatim>\<open>handle_player_disconnect\<close>
  without holding the lock: that call always returns, and it answers with an error when
  the game or the seat is gone already.
\<close>

lemma first_index_None: "first_index P xs = None \<longleftrightarrow> (\<forall>x \<in> set xs. \<not> P x)"
  by (induction xs) (auto split: option.splits)

lemma handle_player_disconnect_returns:
  assumes "\<not> lock_held s"
  shows "\<exists>r s'. handle_player_disconnect player_id gid s = Return r s' \<and> \<not> lock_held s'"
  using assms
  by (auto simp: handle_player_disconnect_def with_lock_def handle_player_disconnect_body_def
        Let_def split: option.splits)

lemma handle_player_disconnect_gone:
  assumes "\<not> lock_held s"
    and "map_of (games s) gid = None \<or>
         (\<exists>g. map_of (games s) gid = Some g \<and> player_id \<notin> pid ` set (players g))"
  shows "\<exists>m. handle_player_disconnect player_id gid s = Return (error_response m) s"
proof (cases "map_of (games s) gid")
  case None
  then show ?thesis
    using assms(1)
    by (auto simp: handle_player_disconnect_def with_lock_def handle_player_disconnect_body_def
          unlock_id)
next
  case (Some g)
  then have "player_id \<notin> pid ` set (players g)" using assms(2) by simp
  then have "first_index (\<lambda>p. pid p = player_id) (players g) = None"
    by (auto simp: first_index_None)
  then show ?thesis
    using assms(1) Some
    by (auto simp: handle_player_disconnect_def with_lock_def handle_player_disconnect_body_def
          unlock_id)
qed

text \<open>
  Claim C5 says that leaving a game always runs to completion and returns a result.
  \<^verbatim>\<open>leave_game\<close> holds the lock while it calls \<^verbatim>\<open>handle_player_disconnect\<close>, which
  waits for the same lock: for a game that exists the call never returns, whoever asks.
  Here it is run for the creator of a fresh game and for a player of a full game.
\<close>

theorem leave_game_never_returns:
  "leave_game (Some ''g1'') ''A'' ex_created = Hang \<and>
   leave_game (Some ''g1'') ''B'' ex_joined = Hang"
  by code_simp

section \<open>Accepted moves\<close>

lemma end_game_Some:
  assumes "players g \<noteq> []"
  shows "\<exists>w d'. end_game g d = Some (g\<lparr>game_over := True, winner := Some w\<rparr>, d')"
proof -
  obtain p ps where "players g = p # ps" using assms by (cases "players g") auto
  then show ?thesis by (auto simp: end_game_def Let_def)
qed

lemma check_land_enclosed_fenced:
  assumes "square n g" "0 \<le> x" "x < n" "0 \<le> y" "y < n"
  shows "check_land_enclosed (fenced n g x y d) x y =
           Some (let c = fenced n g x y d ! nat y ! nat x
                 in north c \<and> east c \<and> south c \<and> west c \<and> owner c = None)"
  using grid_cell_square[OF square_fenced[OF assms(1)] assms(2-5)]
  by (simp add: check_land_enclosed_def Let_def)

lemma place_fence_apply_moved:
  assumes "square (grid_size g) (grid g)"
    and "0 \<le> x" "x < grid_size g" "0 \<le> y" "y < grid_size g"
    and "d \<in> set orientations"
  shows "place_fence_apply gid g (current_player_index g) (nat y) (nat x) x y d player_id now s =
          (let g3 = moved g x y d now;
               recs = AList.update gid
                       ((case map_of (recordings s) gid of None \<Rightarrow> [] | Some ms \<Rightarrow> ms) @
                        [\<lparr>timestamp = now 2, move_player_id = player_id,
                          move_player_name = pname (players g ! current_player_index g),
                          move_x = x, move_y = y, move_orientation = d,
                          move_land_claimed = claims g x y d\<rparr>])
                       (recordings s)
           in if check_game_over g3
              then (case end_game g3 (directory s) of
                      None \<Rightarrow> Raise ValueError ((put_game gid g3 s)\<lparr>recordings := recs\<rparr>)
                    | Some (g4, d4) \<Rightarrow>
                        Return
                          \<lparr>status = ''success'', message = ''Fence placed successfully'',
                           resp_game_id = None, resp_game_state = Some g4,
                           resp_land_claimed = Some (claims g x y d)\<rparr>
                          ((put_game gid g4 s)\<lparr>recordings := recs, directory := d4\<rparr>))
              else Return
                     \<lparr>status = ''success'', message = ''Fence placed successfully'',
                      resp_game_id = None, resp_game_state = Some g3,
                      resp_land_claimed = Some (claims g x y d)\<rparr>
                     ((put_game gid g3 s)\<lparr>recordings := recs\<rparr>))"
proof -
  note ua = update_adjacent_square[OF assms(1-6)]
  have ce: "check_land_enclosed (fenced (grid_size g) (grid g) x y d) x y = Some (claims g x y d)"
    using check_land_enclosed_fenced[OF assms(1-5), of d] by (simp add: claims_def)
  show ?thesis
    by (simp add: place_fence_apply_def ua ce moved_def Let_def)
qed

lemma with_lock_unlocked:
  "\<not> lock_held s \<Longrightarrow>
   with_lock body s =
     (case body (s\<lparr>lock_held := True\<rparr>) of
        Hang \<Rightarrow> Hang
      | Raise e s' \<Rightarrow> Raise e (s'\<lparr>lock_held := False\<rparr>)
      | Return r s' \<Rightarrow> Return r (s'\<lparr>lock_held := False\<rparr>))"
  by (simp add: with_lock_def)

lemma relock_id [simp]: "\<not> lock_held s \<Longrightarrow> s\<lparr>lock_held := True, lock_held := False\<rparr> = s"
  by (cases s) simp

lemma find_game_locked [simp]: "find_game (s\<lparr>lock_held := b\<rparr>) gid_opt = find_game s gid_opt"
  by (simp add: find_game_def split: option.splits)

lemma game_ok_square: "game_ok g \<Longrightarrow> square (grid_size g) (grid g)"
  by (simp add: game_ok_def)

lemma place_fence_body_checks:
  assumes "find_game s gid_opt = Some (gid, g)" and "game_ok g"
  shows "place_fence_body gid_opt x_opt y_opt o_opt player_id now s =
     (if pid (players g ! current_player_index g) \<noteq> player_id
      then Return (error_response ''Not your turn'') s
      else if game_over g
      then Return (error_response ''Game is over'') s
      else (case (x_opt, y_opt) of
              (Some x, Some y) \<Rightarrow>
                if x < 0 \<or> x \<ge> grid_size g \<or> y < 0 \<or> y \<ge> grid_size g
                then Return (error_response ''Position out of bounds'') s
                else (case o_opt of
                        None \<Rightarrow> Return (error_response ''Invalid orientation'') s
                      | Some d \<Rightarrow>
                          if d \<notin> set orientations
                          then Return (error_response ''Invalid orientation'') s
                          else if get_fence (grid g ! nat y ! nat x) d
                          then Return (error_response ''Fence already exists'') s
                          else place_fence_apply gid g (current_player_index g) (nat y) (nat x)
                                 x y d player_id now s)
            | _ \<Rightarrow> Return (error_response ''Invalid position'') s))"
proof -
  have ci: "py_index (players g) (int (current_player_index g)) = Some (current_player_index g)"
    using assms(2) by (simp add: py_index_nat game_ok_def)
  have cr: "\<And>x y. \<not> (x < 0 \<or> x \<ge> grid_size g \<or> y < 0 \<or> y \<ge> grid_size g) \<Longrightarrow>
      cell_ref (grid g) x y = Some (nat y, nat x)"
    using cell_ref_square[OF game_ok_square[OF assms(2)]] by simp
  show ?thesis
    unfolding place_fence_body_def assms(1) option.case prod.case ci
    by (auto split: option.splits simp: cr)
qed

text \<open>What an accepted move returns and leaves behind.\<close>

lemma place_fence_accepted:
  assumes "\<not> lock_held s" and "map_of (games s) gid = Some g" and "gid \<noteq> []" and "game_ok g"
    and "pid (players g ! current_player_index g) = player_id" and "\<not> game_over g"
    and "0 \<le> x" "x < grid_size g" "0 \<le> y" "y < grid_size g" and "d \<in> set orientations"
    and "\<not> get_fence (grid g ! nat y ! nat x) d"
  shows "\<exists>g' d' s'.
           place_fence (Some gid) (Some x) (Some y) (Some d) player_id now s =
             Return
               \<lparr>status = ''success'', message = ''Fence placed successfully'',
                resp_game_id = None, resp_game_state = Some g',
                resp_land_claimed = Some (claims g x y d)\<rparr> s' \<and>
           games s' = AList.update gid g' (games s) \<and> directory s' = d' \<and>
           \<not> lock_held s' \<and>
           (if check_game_over (moved g x y d now)
            then end_game (moved g x y d now) (directory s) = Some (g', d')
            else g' = moved g x y d now \<and> d' = directory s)"
proof -
  have fg: "find_game (s\<lparr>lock_held := True\<rparr>) (Some gid) = Some (gid, g)"
    using assms(2,3) by (simp add: find_game_Some)
  have pl: "players (moved g x y d now) \<noteq> []"
    using assms(4) by (simp add: moved_def Let_def game_ok_def)
  have body: "place_fence_body (Some gid) (Some x) (Some y) (Some d) player_id now (s\<lparr>lock_held := True\<rparr>)
      = place_fence_apply gid g (current_player_index g) (nat y) (nat x) x y d player_id now
          (s\<lparr>lock_held := True\<rparr>)"
    using assms(5-12) by (simp add: place_fence_body_checks[OF fg assms(4)])
  note ap = place_fence_apply_moved[OF game_ok_square[OF assms(4)] assms(7-11),
      of gid player_id now "s\<lparr>lock_held := True\<rparr>"]
  show ?thesis
  proof (cases "check_game_over (moved g x y d now)")
    case True
    obtain w d' where eg: "end_game (moved g x y d now) (directory s) =
        Some ((moved g x y d now)\<lparr>game_over := True, winner := Some w\<rparr>, d')"
      using end_game_Some[OF pl] by blast
    show ?thesis
      using True eg assms(1)
      by (simp add: place_fence_def with_lock_unlocked body ap Let_def put_game_def)
  next
    case False
    show ?thesis
      using False assms(1)
      by (simp add: place_fence_def with_lock_unlocked body ap Let_def put_game_def)
  qed
qed

text \<open>Every other answer is an error and changes nothing.\<close>

lemma place_fence_outcome:
  assumes "\<not> lock_held s" and "all_games game_ok s"
  shows "(\<exists>m. place_fence gid_opt x_opt y_opt o_opt player_id now s = Return (error_response m) s) \<or>
         (\<exists>gid g x y d. gid_opt = Some gid \<and> x_opt = Some x \<and> y_opt = Some y \<and> o_opt = Some d \<and>
            map_of (games s) gid = Some g \<and> gid \<noteq> [] \<and>
            pid (players g ! current_player_index g) = player_id \<and> \<not> game_over g \<and>
            0 \<le> x \<and> x < grid_size g \<and> 0 \<le> y \<and> y < grid_size g \<and> d \<in> set orientations \<and>
            \<not> get_fence (grid g ! nat y ! nat x) d)"
proof (cases "find_game s gid_opt")
  case None
  then show ?thesis
    using assms(1) by (auto simp: place_fence_def with_lock_unlocked place_fence_body_def)
next
  case (Some p)
  obtain gid g where p: "p = (gid, g)" by (cases p)
  have g: "gid_opt = Some gid" "gid \<noteq> []" "map_of (games s) gid = Some g"
    using Some p by (simp_all add: find_game_Some)
  have fg: "find_game (s\<lparr>lock_held := True\<rparr>) (Some gid) = Some (gid, g)"
    using Some p g(1) by simp
  have ok: "game_ok g" using assms(2) g(3) by (auto simp: all_games_def)
  show ?thesis
    unfolding g(1)
    using assms(1) g(2,3)
    by (auto simp: place_fence_def with_lock_unlocked place_fence_body_checks[OF fg ok]
          split: option.splits)
qed

section \<open>Sums over the grid\<close>

lemma sum_list_update_int:
  "k < length xs \<Longrightarrow> sum_list (xs[k := v]) = sum_list xs - xs ! k + (v::int)"
proof (induction xs arbitrary: k)
  case Nil
  then show ?case by simp
next
  case (Cons a xs)
  then show ?case by (cases k) simp_all
qed

lemma grid_sum_modify_at:
  fixes f :: "cell \<Rightarrow> int"
  assumes "j < length g" "i < length (g ! j)"
  shows "sum_list (map (\<lambda>row. sum_list (map f row)) (modify_at g j i h)) =
         sum_list (map (\<lambda>row. sum_list (map f row)) g) - f (g ! j ! i) + f (h (g ! j ! i))"
proof -
  have "sum_list (map f ((g ! j)[i := h (g ! j ! i)])) = sum_list (map f (g ! j)) - f (g ! j ! i) + f (h (g ! j ! i))"
    using assms(2) by (simp add: map_update sum_list_update_int)
  then show ?thesis
    using assms(1) by (simp add: modify_at_def map_update sum_list_update_int)
qed

lemma grid_sum_cong:
  fixes f :: "cell \<Rightarrow> int"
  assumes "length g' = length g"
    and "\<And>j. j < length g \<Longrightarrow> length (g' ! j) = length (g ! j)"
    and "\<And>j i. j < length g \<Longrightarrow> i < length (g ! j) \<Longrightarrow> f (g' ! j ! i) = f (g ! j ! i)"
  shows "sum_list (map (\<lambda>row. sum_list (map f row)) g') =
         sum_list (map (\<lambda>row. sum_list (map f row)) g)"
proof -
  have "map (\<lambda>row. sum_list (map f row)) g' = map (\<lambda>row. sum_list (map f row)) g"
  proof (rule nth_equalityI)
    show "length (map (\<lambda>row. sum_list (map f row)) g') = length (map (\<lambda>row. sum_list (map f row)) g)"
      using assms(1) by simp
  next
    fix j assume "j < length (map (\<lambda>row. sum_list (map f row)) g')"
    then have j: "j < length g" using assms(1) by simp
    have "map f (g' ! j) = map f (g ! j)"
      by (rule nth_equalityI) (simp_all add: assms(2)[OF j] assms(3)[OF j])
    then show "map (\<lambda>row. sum_list (map f row)) g' ! j = map (\<lambda>row. sum_list (map f row)) g ! j"
      using j assms(1) by simp
  qed
  then show ?thesis by simp
qed

lemma worth_fenced:
  assumes "square n g" "0 \<le> x" "x < n" "0 \<le> y" "y < n" "d \<in> set orientations"
  shows "sum_list (map (\<lambda>row. sum_list (map worth row)) (fenced n g x y d)) =
         sum_list (map (\<lambda>row. sum_list (map worth row)) g)"
proof (rule grid_sum_cong)
  have lg: "length g = nat n" using assms(1) by (simp add: square_def)
  show "length (fenced n g x y d) = length g"
    using square_fenced[OF assms(1), of x y d] lg by (simp add: square_def)
  show "length (fenced n g x y d ! j) = length (g ! j)" if "j < length g" for j
    using that square_rows[OF assms(1), of j] square_rows[OF square_fenced[OF assms(1)], of j x y d] lg
    by simp
  show "worth (fenced n g x y d ! j ! i) = worth (g ! j ! i)"
    if "j < length g" "i < length (g ! j)" for j i
  proof -
    have j: "j < nat n" and i: "i < nat n"
      using that square_rows[OF assms(1), of j] lg by simp_all
    show ?thesis
      by (simp add: worth_def fenced_fields(5,6)[OF assms(1-5) j i assms(6)])
  qed
qed

section \<open>The game after an accepted move\<close>

lemma owner_update_fields:
  assumes "j' < length g" "i' < length (g ! j')"
  shows "north (modify_at g j i (owner_update f) ! j' ! i') = north (g ! j' ! i')"
    and "east (modify_at g j i (owner_update f) ! j' ! i') = east (g ! j' ! i')"
    and "south (modify_at g j i (owner_update f) ! j' ! i') = south (g ! j' ! i')"
    and "west (modify_at g j i (owner_update f) ! j' ! i') = west (g ! j' ! i')"
    and "land_value (modify_at g j i (owner_update f) ! j' ! i') = land_value (g ! j' ! i')"
  using assms by (simp_all add: nth_modify_at)

lemma mirrored_owner_update:
  assumes "square n g" "mirrored g"
  shows "mirrored (modify_at g j i (owner_update f))"
proof -
  have lg: "length g = nat n" using assms(1) by (simp add: square_def)
  have rows: "\<And>k. k < nat n \<Longrightarrow> length (g ! k) = nat n"
    using square_rows[OF assms(1)] .
  show ?thesis
    using assms(2) unfolding mirrored_def length_modify_at lg
    by (simp add: owner_update_fields lg rows)
qed

lemma map_update_same: "(map f xs)[k := f (xs ! k)] = map f xs"
  by (metis list_update_id map_update)

lemma moved_players:
  "length (players (moved g x y d now)) = length (players g)"
  "map pid (players (moved g x y d now)) = map pid (players g)"
  by (simp_all add: moved_def Let_def map_update map_update_same)

lemma moved_ok:
  assumes "game_ok g" and "0 \<le> x" "x < grid_size g" "0 \<le> y" "y < grid_size g"
    and "d \<in> set orientations"
  shows "game_ok (moved g x y d now)"
proof -
  let ?n = "grid_size g"
  let ?F = "fenced ?n (grid g) x y d"
  let ?m = "moved g x y d now"
  have sq: "square ?n (grid g)" using assms(1) by (rule game_ok_square)
  have sqF: "square ?n ?F" using sq by (rule square_fenced)
  have miF: "mirrored ?F"
    using mirrored_fenced[OF sq assms(2-6)] assms(1) by (simp add: game_ok_def)
  have lF: "length ?F = nat ?n" using sqF by (simp add: square_def)
  have rF: "\<And>k. k < nat ?n \<Longrightarrow> length (?F ! k) = nat ?n" using square_rows[OF sqF] .
  have lg: "length (grid g) = nat ?n" using sq by (simp add: square_def)
  have rg: "\<And>k. k < nat ?n \<Longrightarrow> length (grid g ! k) = nat ?n" using square_rows[OF sq] .
  have valF: "0 < land_value (?F ! j ! i)" if "j < nat ?n" "i < nat ?n" for j i
    using assms(1) that lg rg[OF that(1)]
    by (simp add: fenced_fields(6)[OF sq assms(2-5) that assms(6)] game_ok_def)
  have nxy: "nat y < nat ?n" "nat x < nat ?n" using assms(2-5) by simp_all
  have idx: "current_player_index g < length (players g)" and ne: "players g \<noteq> []"
    using assms(1) by (simp_all add: game_ok_def)
  have gs: "grid_size ?m = ?n" by (simp add: moved_def Let_def)
  have 1: "players ?m \<noteq> []" using moved_players(1)[of g x y d now] ne by auto
  have pos: "0 < length (players g)" using idx by linarith
  have 2: "current_player_index ?m < length (players ?m)"
    using idx mod_less_divisor[OF pos, of "Suc (current_player_index g)"]
    by (simp add: moved_def Let_def)
  have 3: "distinct (map pid (players ?m))"
    using assms(1) by (simp add: moved_players game_ok_def)
  have 4: "square (grid_size ?m) (grid ?m)"
    using sqF by (simp add: moved_def Let_def square_modify_at)
  have 5: "mirrored (grid ?m)"
    using miF mirrored_owner_update[OF sqF miF] by (simp add: moved_def Let_def)
  have 6: "0 < land_value (grid ?m ! j ! i)" if "j < length (grid ?m)" "i < length (grid ?m ! j)" for j i
  proof -
    have j: "j < nat ?n" using that(1) lF by (simp add: moved_def Let_def split: if_splits)
    have i: "i < nat ?n" using that(2) rF[OF j] by (simp add: moved_def Let_def split: if_splits)
    show ?thesis
      using valF[OF j i] j i lF rF[OF j]
      by (simp add: moved_def Let_def owner_update_fields)
  qed
  have 7: "0 \<le> score p" if "p \<in> set (players ?m)" for p
  proof (cases "claims g x y d")
    case False
    then show ?thesis using that assms(1) by (simp add: moved_def Let_def game_ok_def)
  next
    case True
    have "0 \<le> score (players g ! current_player_index g)"
      using assms(1) idx by (simp add: game_ok_def)
    moreover have "\<forall>q \<in> set (players g). 0 \<le> score q" using assms(1) by (simp add: game_ok_def)
    moreover have "p \<in> insert ((players g ! current_player_index g)
          \<lparr>score := score (players g ! current_player_index g) + land_value (?F ! nat y ! nat x)\<rparr>)
          (set (players g))"
      using that True set_update_subset_insert[of "players g" "current_player_index g"]
      by (auto simp: moved_def Let_def)
    ultimately show ?thesis
      using valF[OF nxy] by auto
  qed
  show ?thesis
    unfolding game_ok_def using 1 2 3 4 5 6 7 by blast
qed

lemma moved_balance:
  assumes "game_ok g" and "0 \<le> x" "x < grid_size g" "0 \<le> y" "y < grid_size g"
    and "d \<in> set orientations"
  shows "score_sum (moved g x y d now) - owned_value (moved g x y d now) = score_sum g - owned_value g"
proof -
  let ?n = "grid_size g"
  let ?F = "fenced ?n (grid g) x y d"
  have sq: "square ?n (grid g)" using assms(1) by (rule game_ok_square)
  have sqF: "square ?n ?F" using sq by (rule square_fenced)
  have lF: "length ?F = nat ?n" using sqF by (simp add: square_def)
  have nxy: "nat y < length ?F" "nat x < length (?F ! nat y)"
    using assms(2-5) lF square_rows[OF sqF, of "nat y"] by simp_all
  have idx: "current_player_index g < length (players g)"
    using assms(1) by (simp add: game_ok_def)
  note wf = worth_fenced[OF sq assms(2-6)]
  show ?thesis
  proof (cases "claims g x y d")
    case False
    then show ?thesis by (simp add: score_sum_def owned_value_def moved_def Let_def wf)
  next
    case True
    then have own: "owner (?F ! nat y ! nat x) = None" by (simp add: claims_def Let_def)
    show ?thesis
      using True idx own
      by (simp add: score_sum_def owned_value_def moved_def Let_def wf
            grid_sum_modify_at[OF nxy] map_update sum_list_update_int worth_def)
  qed
qed

section \<open>The invariant, operation by operation\<close>

lemma game_inv_moved:
  assumes "game_inv leaving g" and "0 \<le> x" "x < grid_size g" "0 \<le> y" "y < grid_size g"
    and "d \<in> set orientations"
  shows "game_inv leaving (moved g x y d now)"
proof -
  have ok: "game_ok g" using assms(1) by (simp add: game_inv_def)
  show ?thesis
    using assms(1) moved_ok[OF ok assms(2-6), of now] moved_balance[OF ok assms(2-6), of now]
    by (auto simp: game_inv_def)
qed

lemma game_inv_ended:
  "game_inv leaving g \<Longrightarrow> game_inv leaving (g\<lparr>game_over := b, winner := w\<rparr>)"
  by (simp add: game_inv_def game_ok_def score_sum_def owned_value_def)

lemma end_game_inv:
  assumes "end_game g d = Some (g', d')" "game_inv leaving g"
  shows "game_inv leaving g'"
proof -
  have "players g \<noteq> []" using assms(2) by (simp add: game_inv_def game_ok_def)
  from end_game_Some[OF this, of d] assms(1) obtain w where "g' = g\<lparr>game_over := True, winner := Some w\<rparr>"
    by auto
  then show ?thesis using assms(2) by (simp add: game_inv_ended)
qed

lemma initialize_grid_nth:
  "j < nat n \<Longrightarrow> i < nat n \<Longrightarrow> initialize_grid pick n ! j ! i = new_cell (pick j i)"
  by (simp add: initialize_grid_def)

lemma square_initialize_grid: "2 \<le> n \<Longrightarrow> square n (initialize_grid pick n)"
  by (auto simp: square_def initialize_grid_def)

lemma game_inv_new:
  assumes "2 \<le> gs"
  shows "game_inv leaving
           \<lparr>game_id = new_id, grid_size = gs, num_players = np,
            players = [\<lparr>pid = player_id, pname = player_name, score = 0\<rparr>],
            current_player_index = 0,
            grid = initialize_grid pick gs,
            game_over = False, winner = None, created_at = created,
            last_activity = t1, turn_start_time = t2, turn_time_limit = 60\<rparr>"
proof -
  have sq: "square gs (initialize_grid pick gs)" using assms by (rule square_initialize_grid)
  have lg: "length (initialize_grid pick gs) = nat gs" by (simp add: initialize_grid_def)
  have rows: "\<And>j. j < nat gs \<Longrightarrow> length (initialize_grid pick gs ! j) = nat gs"
    by (simp add: initialize_grid_def)
  have mi: "mirrored (initialize_grid pick gs)"
    unfolding mirrored_def lg by (simp add: initialize_grid_nth new_cell_def)
  have val: "0 < land_value (initialize_grid pick gs ! j ! i)"
    if "j < nat gs" "i < nat gs" for j i
    using that by (simp add: initialize_grid_nth new_cell_def)
  have "map worth row = map (\<lambda>c. 0) row" if "row \<in> set (initialize_grid pick gs)" for row
    using that by (auto simp: initialize_grid_def worth_def new_cell_def)
  then have "sum_list (map (\<lambda>row. sum_list (map worth row)) (initialize_grid pick gs)) = 0"
    by (simp add: sum_list_0 cong: map_cong)
  then show ?thesis
    using sq mi val lg rows
    by (simp add: game_inv_def game_ok_def score_sum_def owned_value_def)
qed

lemma game_inv_joined:
  assumes "game_inv leaving g" "\<not> list_ex (\<lambda>p. pid p = player_id) (players g)"
  shows "game_inv leaving
           (g\<lparr>players := players g @ [\<lparr>pid = player_id, pname = player_name, score = 0\<rparr>],
              last_activity := t\<rparr>)"
  using assms
  by (auto simp: game_inv_def game_ok_def score_sum_def owned_value_def list_ex_iff)

lemma timeout_game_inv:
  assumes "game_inv leaving g"
  shows "\<exists>g'. timeout_game t g = Some g' \<and> game_inv leaving g' \<and>
               grid g' = grid g \<and> players g' = players g"
proof -
  have idx: "current_player_index g < length (players g)"
    using assms by (simp add: game_inv_def game_ok_def)
  then have pos: "0 < length (players g)" by linarith
  show ?thesis
    using assms idx mod_less_divisor[OF pos, of "Suc (current_player_index g)"]
    by (simp add: timeout_game_def py_index_nat game_inv_def game_ok_def score_sum_def
          owned_value_def)
qed

lemma first_index_Some:
  "first_index P xs = Some k \<Longrightarrow> k < length xs \<and> P (xs ! k)"
proof (induction xs arbitrary: k)
  case Nil
  then show ?case by simp
next
  case (Cons a xs)
  then show ?case by (cases k) (auto split: if_splits option.splits)
qed

lemma sum_list_remove_nth:
  fixes f :: "'a \<Rightarrow> int"
  assumes "k < length xs"
  shows "sum_list (map f (take k xs @ drop (Suc k) xs)) = sum_list (map f xs) - f (xs ! k)"
proof -
  have "sum_list (map f xs) = sum_list (map f (take k xs @ xs ! k # drop (Suc k) xs))"
    using id_take_nth_drop[OF assms] by simp
  then show ?thesis by simp
qed

lemma distinct_remove_nth:
  assumes "distinct (map f xs)"
  shows "distinct (map f (take k xs @ drop (Suc k) xs))"
proof -
  have "set (take k (map f xs)) \<inter> set (drop (Suc k) (map f xs)) = {}"
    using assms by (intro set_take_disj_set_drop_if_distinct) simp_all
  then show ?thesis
    using assms distinct_take[of "map f xs" k] distinct_drop[of "map f xs" "Suc k"]
    by (simp add: take_map drop_map)
qed

lemma game_inv_left:
  assumes "game_inv True g" "k < length (players g)" "1 < length (players g)"
  shows "game_inv True
           (let ps = take k (players g) @ drop (Suc k) (players g);
                g1 = g\<lparr>players := ps,
                       current_player_index :=
                         (if current_player_index g \<ge> length ps then 0 else current_player_index g)\<rparr>
            in if length ps = 1 then g1\<lparr>game_over := True, winner := Some (pid (ps ! 0))\<rparr> else g1)"
proof -
  let ?ps = "take k (players g) @ drop (Suc k) (players g)"
  let ?g1 = "g\<lparr>players := ?ps,
                current_player_index :=
                  (if current_player_index g \<ge> length ?ps then 0 else current_player_index g)\<rparr>"
  have ok: "game_ok g" using assms(1) by (simp add: game_inv_def)
  have len: "length ?ps = length (players g) - 1" using assms(2) by simp
  have ne: "?ps \<noteq> []" using len assms(3) by (metis length_0_conv zero_less_diff less_numeral_extra(3))
  have sub: "set ?ps \<subseteq> set (players g)"
    using set_take_subset[of k "players g"] set_drop_subset[of "Suc k" "players g"] by auto
  have sc: "0 \<le> score (players g ! k)" using ok assms(2) by (simp add: game_ok_def)
  have sums: "score_sum ?g1 = score_sum g - score (players g ! k)"
    using sum_list_remove_nth[OF assms(2), of score] by (simp add: score_sum_def)
  have "game_ok ?g1"
    using ok ne sub distinct_remove_nth[of pid "players g" k] len assms(3)
    unfolding game_ok_def by (auto simp del: set_append map_append)
  moreover have "score_sum ?g1 \<le> owned_value ?g1"
    using assms(1) sums sc by (simp add: game_inv_def owned_value_def)
  ultimately have inv1: "game_inv True ?g1" by (simp add: game_inv_def)
  show ?thesis
  proof (cases "length ?ps = 1")
    case True
    have "game_inv True (?g1\<lparr>game_over := True, winner := Some (pid (?ps ! 0))\<rparr>)"
      using inv1 by (rule game_inv_ended)
    then show ?thesis unfolding Let_def if_P[OF True] .
  next
    case False
    show ?thesis unfolding Let_def if_not_P[OF False] using inv1 .
  qed
qed

section \<open>The stored games after each operation\<close>

lemma all_games_update:
  "all_games P s \<Longrightarrow> P g' \<Longrightarrow> games s' = AList.update gid g' (games s) \<Longrightarrow> all_games P s'"
  by (simp add: all_games_def update_conv' distinct_update)

lemma all_games_delete:
  "all_games P s \<Longrightarrow> games s' = AList.delete gid (games s) \<Longrightarrow> all_games P s'"
  by (simp add: all_games_def delete_conv' distinct_delete)

lemma all_games_same:
  "all_games P s \<Longrightarrow> games s' = games s \<Longrightarrow> all_games P s'"
  by (simp add: all_games_def)

lemma all_gamesD: "all_games P s \<Longrightarrow> map_of (games s) gid = Some g \<Longrightarrow> P g"
  by (simp add: all_games_def)

lemma create_game_inv:
  assumes "post (create_game player_name_opt grid_size_opt num_players_opt player_id new_id created
                   now pick s) = Some s'"
    and "all_games (game_inv leaving) s"
  shows "all_games (game_inv leaving) s'"
proof -
  have ul: "\<not> lock_held s" using post_with_lock[OF assms(1)[unfolded create_game_def]] by simp
  let ?gs = "case grid_size_opt of None \<Rightarrow> 5 | Some n \<Rightarrow> n"
  let ?np = "case num_players_opt of None \<Rightarrow> 2 | Some n \<Rightarrow> n"
  show ?thesis
  proof (cases "?gs < 2 \<or> ?gs > 10 \<or> ?np < 2 \<or> ?np > 4")
    case True
    then have "games s' = games s"
      using assms(1) ul
      by (auto simp: create_game_def with_lock_unlocked create_game_body_def Let_def split: if_splits)
    then show ?thesis using assms(2) by (simp add: all_games_same)
  next
    case False
    then have gs: "2 \<le> ?gs" by auto
    let ?new = "\<lparr>game_id = new_id, grid_size = ?gs, num_players = ?np,
            players = [\<lparr>pid = player_id,
                        pname = (case player_name_opt of None \<Rightarrow> default_name player_id | Some n \<Rightarrow> n),
                        score = 0\<rparr>],
            current_player_index = 0,
            grid = initialize_grid pick ?gs,
            game_over = False, winner = None, created_at = created,
            last_activity = now 0, turn_start_time = now 1, turn_time_limit = 60\<rparr>"
    have upd: "games s' = AList.update new_id ?new (games s)"
      using assms(1) ul False
      by (auto simp: create_game_def with_lock_unlocked create_game_body_def Let_def split: if_splits)
    show ?thesis
      by (rule all_games_update[OF assms(2) game_inv_new[OF gs] upd])
  qed
qed

lemma join_game_inv:
  assumes "post (join_game gid_opt player_name_opt player_id now s) = Some s'"
    and "all_games (game_inv leaving) s"
  shows "all_games (game_inv leaving) s'"
proof -
  have ul: "\<not> lock_held s" using post_with_lock[OF assms(1)[unfolded join_game_def]] by simp
  show ?thesis
  proof (cases "find_game s gid_opt")
    case None
    then have "games s' = games s"
      using assms(1) ul by (auto simp: join_game_def with_lock_unlocked join_game_body_def Let_def)
    then show ?thesis using assms(2) by (simp add: all_games_same)
  next
    case (Some p)
    obtain gid g where p: "p = (gid, g)" by (cases p)
    have g: "map_of (games s) gid = Some g" using Some p by (simp add: find_game_Some)
    have inv: "game_inv leaving g" using all_gamesD[OF assms(2) g] .
    show ?thesis
    proof (cases "int (length (players g)) \<ge> num_players g \<or> list_ex (\<lambda>p. pid p = player_id) (players g)")
      case True
      then have "games s' = games s"
        using assms(1) ul Some p
        by (auto simp: join_game_def with_lock_unlocked join_game_body_def Let_def split: if_splits)
      then show ?thesis using assms(2) by (simp add: all_games_same)
    next
      case False
      then have upd: "games s' = AList.update gid
         (g\<lparr>players := players g @ [\<lparr>pid = player_id,
               pname = (case player_name_opt of None \<Rightarrow> default_name player_id | Some n \<Rightarrow> n),
               score = 0\<rparr>], last_activity := now 0\<rparr>) (games s)"
        using assms(1) ul Some p
        by (auto simp: join_game_def with_lock_unlocked join_game_body_def Let_def put_game_def
              split: if_splits)
      have nin: "\<not> list_ex (\<lambda>p. pid p = player_id) (players g)" using False by simp
      show ?thesis
        by (rule all_games_update[OF assms(2) game_inv_joined[OF inv nin] upd])
    qed
  qed
qed


lemma all_games_mono: "all_games P s \<Longrightarrow> (\<And>g. P g \<Longrightarrow> Q g) \<Longrightarrow> all_games Q s"
  by (simp add: all_games_def)

lemma game_inv_ok: "game_inv leaving g \<Longrightarrow> game_ok g"
  by (simp add: game_inv_def)

lemma place_fence_inv:
  assumes "post (place_fence gid_opt x_opt y_opt o_opt player_id now s) = Some s'"
    and "all_games (game_inv leaving) s"
  shows "all_games (game_inv leaving) s'"
proof -
  have ul: "\<not> lock_held s" using post_with_lock[OF assms(1)[unfolded place_fence_def]] by simp
  have oks: "all_games game_ok s" using assms(2) game_inv_ok by (rule all_games_mono)
  from place_fence_outcome[OF ul oks, of gid_opt x_opt y_opt o_opt player_id now]
  show ?thesis
  proof (elim disjE exE conjE)
    fix m assume "place_fence gid_opt x_opt y_opt o_opt player_id now s = Return (error_response m) s"
    then have "s' = s" using assms(1) by simp
    then show ?thesis using assms(2) by simp
  next
    fix gid g x y d
    assume a: "gid_opt = Some gid" "x_opt = Some x" "y_opt = Some y" "o_opt = Some d"
      "map_of (games s) gid = Some g" "gid \<noteq> []"
      "pid (players g ! current_player_index g) = player_id" "\<not> game_over g"
      "0 \<le> x" "x < grid_size g" "0 \<le> y" "y < grid_size g" "d \<in> set orientations"
      "\<not> get_fence (grid g ! nat y ! nat x) d"
    have inv: "game_inv leaving g" using all_gamesD[OF assms(2) a(5)] .
    have im: "game_inv leaving (moved g x y d now)"
      using inv a(9-13) by (rule game_inv_moved)
    from place_fence_accepted[OF ul a(5,6) game_inv_ok[OF inv] a(7-14), of now]
    obtain g' d' s'' r where
      res: "place_fence (Some gid) (Some x) (Some y) (Some d) player_id now s = Return r s''"
      and upd: "games s'' = AList.update gid g' (games s)"
      and fin: "if check_game_over (moved g x y d now)
            then end_game (moved g x y d now) (directory s) = Some (g', d')
            else g' = moved g x y d now \<and> d' = directory s"
      by blast
    have s': "s'' = s'" using assms(1) res a(1-4) by simp
    have "game_inv leaving g'"
      using fin im end_game_inv[of "moved g x y d now" "directory s" g' d' leaving]
      by (auto split: if_splits)
    then show ?thesis using all_games_update[OF assms(2) _ upd] s' by simp
  qed
qed

lemma timeout_games_inv:
  assumes "\<forall>p \<in> set gs. game_inv leaving (snd p)"
  shows "\<exists>gs'. timeout_games t gs = (False, gs') \<and> map fst gs' = map fst gs \<and>
           (\<forall>k g'. (k, g') \<in> set gs' \<longrightarrow>
              (\<exists>g. (k, g) \<in> set gs \<and> timeout_game t g = Some g' \<and> game_inv leaving g'))"
  using assms
proof (induction gs)
  case Nil
  then show ?case by simp
next
  case (Cons a gs)
  obtain k g where a: "a = (k, g)" by (cases a)
  have "game_inv leaving g" using Cons.prems a by simp
  from timeout_game_inv[OF this, of t] obtain g' where
    g': "timeout_game t g = Some g'" "game_inv leaving g'" by blast
  from Cons.IH Cons.prems obtain gs' where
    gs': "timeout_games t gs = (False, gs')" "map fst gs' = map fst gs"
      "\<forall>k g'. (k, g') \<in> set gs' \<longrightarrow>
         (\<exists>g. (k, g) \<in> set gs \<and> timeout_game t g = Some g' \<and> game_inv leaving g')"
    by auto
  show ?case
    using g' gs' by (auto simp: a)
qed

lemma check_inactivity_inv:
  assumes "post (check_inactivity t s) = Some s'"
    and "all_games (game_inv leaving) s"
  shows "all_games (game_inv leaving) s'"
proof -
  have ul: "\<not> lock_held s" using post_with_lock[OF assms(1)[unfolded check_inactivity_def]] by simp
  have di: "distinct (map fst (games s))" using assms(2) by (simp add: all_games_def)
  have "\<forall>p \<in> set (games s). game_inv leaving (snd p)"
    using assms(2) di by (auto simp: all_games_def)
  from timeout_games_inv[OF this, of t] obtain gs' where
    gs': "timeout_games t (games s) = (False, gs')" "map fst gs' = map fst (games s)"
      "\<forall>k g'. (k, g') \<in> set gs' \<longrightarrow>
         (\<exists>g. (k, g) \<in> set (games s) \<and> timeout_game t g = Some g' \<and> game_inv leaving g')"
    by blast
  have "games s' = gs'"
    using assms(1) ul gs'(1) by (auto simp: check_inactivity_def with_lock_unlocked)
  then show ?thesis
    using gs'(2,3) di by (auto simp: all_games_def dest: map_of_SomeD)
qed

lemma handle_player_disconnect_inv:
  assumes "post (handle_player_disconnect player_id gid s) = Some s'"
    and "all_games (game_inv True) s"
  shows "all_games (game_inv True) s'"
proof -
  have ul: "\<not> lock_held s"
    using post_with_lock[OF assms(1)[unfolded handle_player_disconnect_def]] by simp
  note defs = handle_player_disconnect_def with_lock_unlocked handle_player_disconnect_body_def
  show ?thesis
  proof (cases "map_of (games s) gid")
    case None
    then have "games s' = games s" using assms(1) ul by (auto simp: defs)
    then show ?thesis using assms(2) by (simp add: all_games_same)
  next
    case (Some g)
    note g = Some
    have inv: "game_inv True g" using all_gamesD[OF assms(2) g] .
    show ?thesis
    proof (cases "first_index (\<lambda>p. pid p = player_id) (players g)")
      case None
      then have "games s' = games s" using assms(1) ul g by (auto simp: defs)
      then show ?thesis using assms(2) by (simp add: all_games_same)
    next
      case (Some k)
      have k: "k < length (players g)" using first_index_Some[OF Some] by simp
      show ?thesis
      proof (cases "length (players g) \<le> 1")
        case True
        then have "games s' = AList.delete gid (games s)"
          using assms(1) ul g Some by (auto simp: defs)
        then show ?thesis using assms(2) by (simp add: all_games_delete)
      next
        case False
        then have more: "1 < length (players g)" by simp
        have upd: "games s' = AList.update gid
            (let ps = take k (players g) @ drop (Suc k) (players g);
                g1 = g\<lparr>players := ps,
                       current_player_index :=
                         (if current_player_index g \<ge> length ps then 0 else current_player_index g)\<rparr>
            in if length ps = 1 then g1\<lparr>game_over := True, winner := Some (pid (ps ! 0))\<rparr> else g1)
            (games s)"
          using assms(1) ul g Some False by (auto simp: defs Let_def put_game_def)
        show ?thesis
          by (rule all_games_update[OF assms(2) game_inv_left[OF inv k more] upd])
      qed
    qed
  qed
qed

lemma leave_game_post:
  assumes "post (leave_game gid_opt player_id s) = Some s'"
  shows "s' = s"
proof -
  have ul: "\<not> lock_held s" using post_with_lock[OF assms(1)[unfolded leave_game_def]] by simp
  show ?thesis
    using assms ul
    by (auto simp: leave_game_def with_lock_unlocked handle_player_disconnect_def with_lock_def
          split: option.splits)
qed

lemma reachable_inv: "reachable leaving s \<Longrightarrow> all_games (game_inv leaving) s"
proof (induction rule: reachable.induct)
  case r_init
  show ?case by (simp add: all_games_def init_server_def)
next
  case (r_create s player_name_opt grid_size_opt num_players_opt player_id new_id created now pick s')
  from r_create(2,3) show ?case by (rule create_game_inv)
next
  case (r_join s gid_opt player_name_opt player_id now s')
  from r_join(2,3) show ?case by (rule join_game_inv)
next
  case (r_place s gid_opt x_opt y_opt orientation_opt player_id now s')
  from r_place(2,3) show ?case by (rule place_fence_inv)
next
  case (r_timeout s current_time s')
  from r_timeout(2,3) show ?case by (rule check_inactivity_inv)
next
  case (r_disconnect s player_id gid s')
  from r_disconnect(1) have l: "leaving = True" by simp
  from r_disconnect(3) r_disconnect(4)[unfolded l] show ?case
    unfolding l by (rule handle_player_disconnect_inv)
next
  case (r_leave s gid_opt player_id s')
  then show ?case using leave_game_post by blast
qed

section \<open>Claims about the turn\<close>

lemma ex_joined_game: "map_of (games ex_joined) ''g1'' = Some ex_joined_game"
  unfolding ex_joined_game_def by code_simp

lemma ex_final_game: "map_of (games ex_final) ''g1'' = Some ex_final_game"
  unfolding ex_final_game_def by code_simp

text \<open>
  Claim C10: in every reachable state the turn index of a stored game points at a seated
  player, so that \<^verbatim>\<open>game["players"][game["current_player_index"]]\<close> finds one. The index
  is a natural number, never negative; every stored game has a seated player.
\<close>

theorem turn_index_in_range:
  assumes "reachable leaving s" and "map_of (games s) gid = Some g"
  shows "players g \<noteq> [] \<and> current_player_index g < length (players g) \<and>
         py_index (players g) (int (current_player_index g)) = Some (current_player_index g)"
proof -
  have "game_inv leaving g"
    using reachable_inv[OF assms(1)] assms(2) by (rule all_gamesD)
  then show ?thesis by (simp add: game_inv_def game_ok_def py_index_nat)
qed

theorem turn_index_in_range_witness:
  "reachable True ex_final \<and> map_of (games ex_final) ''g1'' = Some ex_final_game \<and>
   players ex_final_game \<noteq> [] \<and>
   current_player_index ex_final_game < length (players ex_final_game) \<and>
   py_index (players ex_final_game) (int (current_player_index ex_final_game))
     = Some (current_player_index ex_final_game)"
  using turn_index_in_range[OF ex_final_reachable ex_final_game] ex_final_reachable ex_final_game
  by simp

text \<open>
  Claim C8: a move of a seated player who does not hold the turn is answered with the
  error "Not your turn", and the server state stays as it was: grid, owners, scores and
  turn index of the game, and everything else.
\<close>

theorem out_of_turn_rejected:
  assumes "reachable leaving s" and "map_of (games s) gid = Some g" and "gid \<noteq> []"
    and "player_id \<in> pid ` set (players g)"
    and "pid (players g ! current_player_index g) \<noteq> player_id"
  shows "place_fence (Some gid) x_opt y_opt orientation_opt player_id now s
           = Return (error_response ''Not your turn'') s"
proof -
  have ul: "\<not> lock_held s" using assms(1) by (rule reachable_unlocked)
  have ok: "game_ok g"
    using all_gamesD[OF reachable_inv[OF assms(1)] assms(2)] by (rule game_inv_ok)
  have fg: "find_game (s\<lparr>lock_held := True\<rparr>) (Some gid) = Some (gid, g)"
    using assms(2,3) by (simp add: find_game_Some)
  show ?thesis
    using assms(5) ul
    by (simp add: place_fence_def with_lock_unlocked place_fence_body_checks[OF fg ok])
qed

theorem out_of_turn_rejected_witness:
  "reachable True ex_joined \<and> map_of (games ex_joined) ''g1'' = Some ex_joined_game \<and>
   ''g1'' \<noteq> [] \<and> ''B'' \<in> pid ` set (players ex_joined_game) \<and>
   pid (players ex_joined_game ! current_player_index ex_joined_game) \<noteq> ''B'' \<and>
   place_fence (Some ''g1'') (Some 0) (Some 0) (Some ''north'') ''B'' clock0 ex_joined
     = Return (error_response ''Not your turn'') ex_joined"
proof -
  have a: "''B'' \<in> pid ` set (players ex_joined_game)"
    unfolding ex_joined_game_def by code_simp
  have b: "pid (players ex_joined_game ! current_player_index ex_joined_game) \<noteq> ''B''"
    unfolding ex_joined_game_def by code_simp
  have c: "''g1'' \<noteq> []" by simp
  show ?thesis
    using out_of_turn_rejected[OF ex_joined_reachable ex_joined_game c a b] ex_joined_reachable
      ex_joined_game a b
    by simp
qed

section \<open>Successful moves\<close>

lemma end_game_fields:
  assumes "end_game g d = Some (g', d')"
  shows "players g' = players g" "grid g' = grid g"
    "current_player_index g' = current_player_index g" "game_over g'"
  using assms by (auto simp: end_game_def Let_def split: option.splits if_splits)

lemma place_fence_success:
  assumes "\<not> lock_held s" and "all_games game_ok s"
    and "place_fence gid_opt x_opt y_opt o_opt player_id now s = Return r s'"
    and "status r = ''success''"
  obtains gid g x y d g' where
    "gid_opt = Some gid" "x_opt = Some x" "y_opt = Some y" "o_opt = Some d"
    "map_of (games s) gid = Some g" "gid \<noteq> []" "game_ok g"
    "pid (players g ! current_player_index g) = player_id" "\<not> game_over g"
    "0 \<le> x" "x < grid_size g" "0 \<le> y" "y < grid_size g" "d \<in> set orientations"
    "\<not> get_fence (grid g ! nat y ! nat x) d"
    "games s' = AList.update gid g' (games s)"
    "resp_land_claimed r = Some (claims g x y d)"
    "if check_game_over (moved g x y d now)
     then end_game (moved g x y d now) (directory s) = Some (g', directory s')
     else g' = moved g x y d now \<and> directory s' = directory s"
proof -
  from place_fence_outcome[OF assms(1,2), of gid_opt x_opt y_opt o_opt player_id now]
  show thesis
  proof (elim disjE exE conjE)
    fix m assume "place_fence gid_opt x_opt y_opt o_opt player_id now s = Return (error_response m) s"
    then have "status r = ''error''" using assms(3) by (auto simp: error_response_def)
    then show thesis using assms(4) by simp
  next
    fix gid g x y d
    assume a: "gid_opt = Some gid" "x_opt = Some x" "y_opt = Some y" "o_opt = Some d"
      "map_of (games s) gid = Some g" "gid \<noteq> []"
      "pid (players g ! current_player_index g) = player_id" "\<not> game_over g"
      "0 \<le> x" "x < grid_size g" "0 \<le> y" "y < grid_size g" "d \<in> set orientations"
      "\<not> get_fence (grid g ! nat y ! nat x) d"
    have ok: "game_ok g" using all_gamesD[OF assms(2) a(5)] .
    from place_fence_accepted[OF assms(1) a(5,6) ok a(7-14), of now]
    obtain g' d' s'' where
      res: "place_fence (Some gid) (Some x) (Some y) (Some d) player_id now s =
             Return
               \<lparr>status = ''success'', message = ''Fence placed successfully'',
                resp_game_id = None, resp_game_state = Some g',
                resp_land_claimed = Some (claims g x y d)\<rparr> s''"
      and upd: "games s'' = AList.update gid g' (games s)" and dir: "directory s'' = d'"
      and fin: "if check_game_over (moved g x y d now)
            then end_game (moved g x y d now) (directory s) = Some (g', d')
            else g' = moved g x y d now \<and> d' = directory s"
      by blast
    have eq: "s'' = s'" "resp_land_claimed r = Some (claims g x y d)"
      using assms(3) res a(1-4) by auto
    show thesis
      using that[OF a(1-6) ok a(7-14) upd[unfolded eq] eq(2)] fin dir eq(1) by simp
  qed
qed

lemma grid_map_cong:
  assumes "length g' = length g"
    and "\<And>j. j < length g \<Longrightarrow> length (g' ! j) = length (g ! j)"
    and "\<And>j i. j < length g \<Longrightarrow> i < length (g ! j) \<Longrightarrow> f (g' ! j ! i) = f (g ! j ! i)"
  shows "map (map f) g' = map (map f) g"
proof (rule nth_equalityI)
  show "length (map (map f) g') = length (map (map f) g)" using assms(1) by simp
next
  fix j assume "j < length (map (map f) g')"
  then have j: "j < length g" using assms(1) by simp
  have "map f (g' ! j) = map f (g ! j)"
    by (rule nth_equalityI) (simp_all add: assms(2)[OF j] assms(3)[OF j])
  then show "map (map f) g' ! j = map (map f) g ! j" using j assms(1) by simp
qed

lemma owners_fenced:
  assumes "square n g" "0 \<le> x" "x < n" "0 \<le> y" "y < n" "d \<in> set orientations"
  shows "map (map owner) (fenced n g x y d) = map (map owner) g"
proof (rule grid_map_cong)
  have lg: "length g = nat n" using assms(1) by (simp add: square_def)
  show "length (fenced n g x y d) = length g"
    using square_fenced[OF assms(1), of x y d] lg by (simp add: square_def)
  show "length (fenced n g x y d ! j) = length (g ! j)" if "j < length g" for j
    using that square_rows[OF assms(1), of j] square_rows[OF square_fenced[OF assms(1)], of j x y d] lg
    by simp
  show "owner (fenced n g x y d ! j ! i) = owner (g ! j ! i)"
    if "j < length g" "i < length (g ! j)" for j i
  proof -
    have j: "j < nat n" and i: "i < nat n"
      using that square_rows[OF assms(1), of j] lg by simp_all
    show ?thesis
      by (simp add: fenced_fields(5)[OF assms(1-5) j i assms(6)])
  qed
qed

lemma owners_moved:
  assumes "game_ok g" and "0 \<le> x" "x < grid_size g" "0 \<le> y" "y < grid_size g"
    and "d \<in> set orientations"
  shows "owners (moved g x y d now) \<noteq> owners g \<longleftrightarrow> claims g x y d"
proof -
  let ?n = "grid_size g"
  let ?F = "fenced ?n (grid g) x y d"
  have sq: "square ?n (grid g)" using assms(1) by (rule game_ok_square)
  have sqF: "square ?n ?F" using sq by (rule square_fenced)
  have lF: "length ?F = nat ?n" using sqF by (simp add: square_def)
  have nxy: "nat y < length ?F" "nat x < length (?F ! nat y)"
    using assms(2-5) lF square_rows[OF sqF, of "nat y"] by simp_all
  note of = owners_fenced[OF sq assms(2-6)]
  show ?thesis
  proof (cases "claims g x y d")
    case False
    then show ?thesis by (simp add: owners_def moved_def Let_def of)
  next
    case True
    let ?G = "modify_at ?F (nat y) (nat x)
                (\<lambda>c. c\<lparr>owner := Some (pid (players g ! current_player_index g))\<rparr>)"
    have own: "owner (?F ! nat y ! nat x) = None" using True by (simp add: claims_def Let_def)
    have "map (map owner) ?G ! nat y ! nat x \<noteq> map (map owner) ?F ! nat y ! nat x"
      using nxy own by (simp add: nth_modify_at)
    then have "map (map owner) ?G \<noteq> map (map owner) ?F" by metis
    then show ?thesis using True by (simp add: owners_def moved_def Let_def of)
  qed
qed

text \<open>
  Claim C6: after a successful move the turn index is the next one modulo the number of
  seated players when the move claimed no cell, and the same as before when it claimed
  one. A move claims a cell exactly when the owners on the grid change; the answer
  reports it in \<^verbatim>\<open>land_claimed\<close>. The number of seated players does not change.
\<close>

theorem turn_rotation:
  assumes "reachable leaving s"
    and "place_fence gid_opt x_opt y_opt orientation_opt player_id now s = Return r s'"
    and "status r = ''success''"
  shows "\<exists>gid g g'. gid_opt = Some gid \<and> map_of (games s) gid = Some g \<and>
           map_of (games s') gid = Some g' \<and>
           length (players g') = length (players g) \<and>
           resp_land_claimed r = Some (owners g' \<noteq> owners g) \<and>
           current_player_index g' =
             (if owners g' = owners g
              then (current_player_index g + 1) mod length (players g)
              else current_player_index g)"
proof -
  have ul: "\<not> lock_held s" using assms(1) by (rule reachable_unlocked)
  have oks: "all_games game_ok s"
    using reachable_inv[OF assms(1)] game_inv_ok by (rule all_games_mono)
  from ul oks assms(2,3) show ?thesis
  proof (rule place_fence_success)
    fix gid g x y d g'
    assume a: "gid_opt = Some gid" "map_of (games s) gid = Some g" "game_ok g"
      "0 \<le> x" "x < grid_size g" "0 \<le> y" "y < grid_size g" "d \<in> set orientations"
      "games s' = AList.update gid g' (games s)"
      "resp_land_claimed r = Some (claims g x y d)"
      "if check_game_over (moved g x y d now)
       then end_game (moved g x y d now) (directory s) = Some (g', directory s')
       else g' = moved g x y d now \<and> directory s' = directory s"
    let ?m = "moved g x y d now"
    have same: "players g' = players ?m" "grid g' = grid ?m"
      "current_player_index g' = current_player_index ?m"
      using a(11) end_game_fields[of ?m "directory s" g' "directory s'"]
      by (auto split: if_splits)
    have ow: "owners g' \<noteq> owners g \<longleftrightarrow> claims g x y d"
      using owners_moved[OF a(3-8), of now] same(2) by (simp add: owners_def)
    have idx: "current_player_index ?m =
        (if claims g x y d then current_player_index g
         else (current_player_index g + 1) mod length (players g))"
      by (simp add: moved_def Let_def)
    have "map_of (games s') gid = Some g'" using a(9) by (simp add: update_conv')
    then show ?thesis
      using a(1,2,10) same(1,3) ow idx moved_players(1)[of g x y d now] by auto
  qed
qed

lemma ex_move1: "place_fence (Some ''g1'') (Some 1) (Some 0) (Some ''north'') ''A'' clock0 ex_joined
    = Return ex_move1_response ex_move1_state"
  unfolding ex_move1_response_def ex_move1_state_def ex_move1_def by code_simp

theorem turn_rotation_witness:
  "reachable True ex_joined \<and>
   place_fence (Some ''g1'') (Some 1) (Some 0) (Some ''north'') ''A'' clock0 ex_joined
     = Return ex_move1_response ex_move1_state \<and>
   status ex_move1_response = ''success'' \<and>
   (\<exists>gid g g'. Some ''g1'' = Some gid \<and> map_of (games ex_joined) gid = Some g \<and>
           map_of (games ex_move1_state) gid = Some g' \<and>
           length (players g') = length (players g) \<and>
           resp_land_claimed ex_move1_response = Some (owners g' \<noteq> owners g) \<and>
           current_player_index g' =
             (if owners g' = owners g
              then (current_player_index g + 1) mod length (players g)
              else current_player_index g))"
proof -
  have st: "status ex_move1_response = ''success''"
    unfolding ex_move1_response_def ex_move1_def by code_simp
  note concl = turn_rotation[OF ex_joined_reachable ex_move1 st]
  show ?thesis
    by (intro conjI ex_joined_reachable ex_move1 st concl)
qed

section \<open>The end of the game\<close>

lemma py_max_Max:
  assumes "xs \<noteq> []"
  shows "py_max xs = Some (Max (set xs))"
proof (cases xs)
  case Nil
  then show ?thesis using assms by simp
next
  case (Cons a list)
  show ?thesis unfolding Cons using Max.set_eq_fold[of a list] by simp
qed

lemma end_game_winner:
  assumes "end_game g d = Some (g', d')" and "distinct (map pid (players g))"
  shows "game_over g'"
    and "\<And>p. p \<in> set (players g) \<Longrightarrow> score p = top_score g \<Longrightarrow>
         (\<forall>q \<in> set (players g). score q = top_score g \<longrightarrow> q = p) \<Longrightarrow>
         winner g' = Some (pid p)"
    and "\<And>p q. p \<in> set (players g) \<Longrightarrow> q \<in> set (players g) \<Longrightarrow> p \<noteq> q \<Longrightarrow>
         score p = top_score g \<Longrightarrow> score q = top_score g \<Longrightarrow> winner g' = Some ''draw''"
proof -
  let ?best = "filter (\<lambda>p. score p = top_score g) (players g)"
  have ne: "players g \<noteq> []" using assms(1) by (auto simp: end_game_def split: option.splits)
  have mx: "py_max (map score (players g)) = Some (top_score g)"
    using ne by (simp add: py_max_Max top_score_def)
  have w: "winner g' = (if length ?best = 1 then Some (pid (?best ! 0)) else Some ''draw'')"
    using assms(1) by (auto simp: end_game_def mx Let_def split: if_splits)
  have dist: "distinct ?best" using assms(2) by (simp add: distinct_map)
  have len: "card (set ?best) = length ?best" using dist by (rule distinct_card)
  show "game_over g'" using assms(1) by (rule end_game_fields)
  show "winner g' = Some (pid p)"
    if "p \<in> set (players g)" "score p = top_score g"
      "\<forall>q \<in> set (players g). score q = top_score g \<longrightarrow> q = p" for p
  proof -
    have sb: "set ?best = {p}"
    proof
      show "set ?best \<subseteq> {p}" using that(3) by fastforce
      show "{p} \<subseteq> set ?best" using that(1,2) by simp
    qed
    have "card (set ?best) = 1" unfolding sb by simp
    then have l1: "length ?best = 1" using len by simp
    then obtain b where b: "?best = [b]" by (cases ?best) auto
    then have "b \<in> set ?best" by simp
    then have "b = p" unfolding sb by simp
    then show ?thesis using w l1 b by simp
  qed
  show "winner g' = Some ''draw''"
    if "p \<in> set (players g)" "q \<in> set (players g)" "p \<noteq> q"
      "score p = top_score g" "score q = top_score g" for p q
  proof -
    have "{p, q} \<subseteq> set ?best" using that by simp
    then have "card {p, q} \<le> card (set ?best)" by (intro card_mono) simp_all
    moreover have "card {p, q} = 2" using that(3) by simp
    ultimately have "2 \<le> length ?best" using len by linarith
    then show ?thesis using w by simp
  qed
qed

text \<open>
  Claim C7: when all fences of the grid are placed after a successful move, the game is
  over; the winner is the identifier of the player with the highest score when that
  player is the only one with it, and "draw" when two different players have it.
\<close>

theorem end_game_resolution:
  assumes "reachable leaving s"
    and "place_fence gid_opt x_opt y_opt orientation_opt player_id now s = Return r s'"
    and "status r = ''success''"
    and "gid_opt = Some gid" and "map_of (games s') gid = Some g'"
    and "check_game_over g'"
  shows "game_over g' \<and>
         (\<forall>p \<in> set (players g').
            score p = top_score g' \<longrightarrow>
            (\<forall>q \<in> set (players g'). score q = top_score g' \<longrightarrow> q = p) \<longrightarrow>
            winner g' = Some (pid p)) \<and>
         (\<forall>p \<in> set (players g'). \<forall>q \<in> set (players g').
            p \<noteq> q \<longrightarrow> score p = top_score g' \<longrightarrow> score q = top_score g' \<longrightarrow>
            winner g' = Some ''draw'')"
proof -
  have ul: "\<not> lock_held s" using assms(1) by (rule reachable_unlocked)
  have oks: "all_games game_ok s"
    using reachable_inv[OF assms(1)] game_inv_ok by (rule all_games_mono)
  from ul oks assms(2,3) show ?thesis
  proof (rule place_fence_success)
    fix gid0 g x y d g0
    assume a: "gid_opt = Some gid0" "game_ok g"
      "0 \<le> x" "x < grid_size g" "0 \<le> y" "y < grid_size g" "d \<in> set orientations"
      "games s' = AList.update gid0 g0 (games s)"
      "if check_game_over (moved g x y d now)
       then end_game (moved g x y d now) (directory s) = Some (g0, directory s')
       else g0 = moved g x y d now \<and> directory s' = directory s"
    let ?m = "moved g x y d now"
    have g0: "g0 = g'" using a(1,8) assms(4,5) by (simp add: update_conv')
    have "grid g' = grid ?m"
      using a(9) g0 end_game_fields(2)[of ?m "directory s" g' "directory s'"]
      by (auto split: if_splits)
    then have "check_game_over ?m" using assms(6) by (simp add: check_game_over_def)
    then have eg: "end_game ?m (directory s) = Some (g', directory s')" using a(9) g0 by simp
    have di: "distinct (map pid (players ?m))"
      using moved_ok[OF a(2-7), of now] by (simp add: game_ok_def)
    have pl: "players g' = players ?m" using eg by (rule end_game_fields)
    then have ts: "top_score g' = top_score ?m" by (simp add: top_score_def)
    show ?thesis
      unfolding pl ts
      using end_game_winner[OF eg di] by blast
  qed
qed

lemma ex_eleven_run: "play (take 11 moves12) ex_joined = Some ex_eleven"
  unfolding ex_eleven_def by code_simp

lemma ex_eleven_reachable: "reachable leaving ex_eleven"
  using ex_joined_reachable ex_eleven_run by (rule play_reachable)

lemma ex_move12: "place_fence (Some ''g1'') (Some 1) (Some 1) (Some ''south'') ''B'' clock0 ex_eleven
    = Return ex_move12_response ex_move12_state"
  unfolding ex_move12_response_def ex_move12_state_def ex_move12_def by code_simp

lemma ex_move12_game: "map_of (games ex_move12_state) ''g1'' = Some ex_move12_game"
  unfolding ex_move12_game_def by code_simp

theorem end_game_resolution_witness:
  "reachable True ex_eleven \<and>
   place_fence (Some ''g1'') (Some 1) (Some 1) (Some ''south'') ''B'' clock0 ex_eleven
     = Return ex_move12_response ex_move12_state \<and>
   status ex_move12_response = ''success'' \<and>
   map_of (games ex_move12_state) ''g1'' = Some ex_move12_game \<and>
   check_game_over ex_move12_game \<and>
   players ex_move12_game =
     [\<lparr>pid = ''A'', pname = ''Ann'', score = 2\<rparr>, \<lparr>pid = ''B'', pname = ''Bob'', score = 1\<rparr>] \<and>
   top_score ex_move12_game = 2 \<and>
   game_over ex_move12_game \<and>
   winner ex_move12_game = Some ''A''"
proof -
  have st: "status ex_move12_response = ''success''"
    unfolding ex_move12_response_def ex_move12_def by code_simp
  have over: "check_game_over ex_move12_game"
    unfolding ex_move12_game_def ex_move12_state_def ex_move12_def by code_simp
  have pl: "players ex_move12_game =
     [\<lparr>pid = ''A'', pname = ''Ann'', score = 2\<rparr>, \<lparr>pid = ''B'', pname = ''Bob'', score = 1\<rparr>]"
    unfolding ex_move12_game_def ex_move12_state_def ex_move12_def by code_simp
  have top: "top_score ex_move12_game = 2"
    by (simp add: top_score_def pl)
  note concl = end_game_resolution[OF ex_eleven_reachable ex_move12 st refl ex_move12_game over]
  have "winner ex_move12_game = Some (pid \<lparr>pid = ''A'', pname = ''Ann'', score = 2\<rparr>)"
    using conjunct1[OF conjunct2[OF concl]] by (simp add: pl top)
  then have win: "winner ex_move12_game = Some ''A''" by simp
  show ?thesis
    by (intro conjI ex_eleven_reachable ex_move12 st ex_move12_game over pl top
          conjunct1[OF concl] win)
qed

section \<open>Fences\<close>

lemma mirrored_neighbour:
  assumes "square n g" "mirrored g" "0 \<le> x" "x < n" "0 \<le> y" "y < n" "d \<in> set orientations"
    and "neighbour n x y d = Some (a, b)"
  shows "get_fence (g ! a ! b) (opposite d) = get_fence (g ! nat y ! nat x) d"
proof -
  have lg: "length g = nat n" using assms(1) by (simp add: square_def)
  have xy: "nat y < nat n" "nat x < nat n" using assms(3-6) by simp_all
  note nb = neighbour_nat[OF assms(3-6)]
  have e: "\<And>j i. j < nat n \<Longrightarrow> i < nat n \<Longrightarrow> Suc i < nat n \<Longrightarrow> east (g ! j ! i) = west (g ! j ! Suc i)"
    and s: "\<And>j i. j < nat n \<Longrightarrow> i < nat n \<Longrightarrow> Suc j < nat n \<Longrightarrow> south (g ! j ! i) = north (g ! Suc j ! i)"
    using assms(2) by (simp_all add: mirrored_def lg)
  from assms(7) show ?thesis
  proof (cases rule: orientation_cases)
    case 1
    then have ab: "Suc a = nat y" "b = nat x" using assms(8) nb(1) by simp_all
    have "south (g ! a ! b) = north (g ! Suc a ! b)" using s[of a b] ab xy by simp
    then show ?thesis using 1 ab by (simp add: get_fence_def opposite_def)
  next
    case 2
    then have ab: "a = nat y" "b = Suc (nat x)" "b < nat n" using assms(8) nb(3) by simp_all
    have "east (g ! a ! nat x) = west (g ! a ! Suc (nat x))" using e[of a "nat x"] ab xy by simp
    then show ?thesis using 2 ab by (simp add: get_fence_def opposite_def)
  next
    case 3
    then have ab: "a = Suc (nat y)" "a < nat n" "b = nat x" using assms(8) nb(2) by simp_all
    have "south (g ! nat y ! b) = north (g ! Suc (nat y) ! b)" using s[of "nat y" b] ab xy by simp
    then show ?thesis using 3 ab by (simp add: get_fence_def opposite_def)
  next
    case 4
    then have ab: "a = nat y" "Suc b = nat x" using assms(8) nb(4) by simp_all
    have "east (g ! a ! b) = west (g ! a ! Suc b)" using e[of a b] ab xy by simp
    then show ?thesis using 4 ab by (simp add: get_fence_def opposite_def)
  qed
qed

lemma get_set_fence:
  "d \<in> set orientations \<Longrightarrow> get_fence (set_fence d c) d"
  by (auto simp: get_fence_def set_fence_def orientations_def)

lemma get_fence_owner [simp]: "get_fence (c\<lparr>owner := w\<rparr>) d = get_fence c d"
  by (simp add: get_fence_def)

lemma opposite_orientation: "d \<in> set orientations \<Longrightarrow> opposite d \<in> set orientations"
  by (auto simp: opposite_def orientations_def)

text \<open>The cells of the grid after an accepted move.\<close>

lemma moved_grid_nth:
  assumes "game_ok g" and "0 \<le> x" "x < grid_size g" "0 \<le> y" "y < grid_size g"
    and "a < nat (grid_size g)" "b < nat (grid_size g)"
  shows "grid (moved g x y d now) ! a ! b =
           (if (a, b) = (nat y, nat x)
            then (if claims g x y d
                  then (set_fence d (grid g ! a ! b))\<lparr>owner := Some (pid (players g ! current_player_index g))\<rparr>
                  else set_fence d (grid g ! a ! b))
            else if neighbour (grid_size g) x y d = Some (a, b)
            then set_fence (opposite d) (grid g ! a ! b)
            else grid g ! a ! b)"
proof -
  let ?n = "grid_size g"
  let ?F = "fenced ?n (grid g) x y d"
  have sq: "square ?n (grid g)" using assms(1) by (rule game_ok_square)
  have sqF: "square ?n ?F" using sq by (rule square_fenced)
  have la: "a < length ?F" "b < length (?F ! a)"
    using sqF assms(6,7) square_rows[OF sqF, of a] by (simp_all add: square_def)
  have xy: "nat y < nat ?n" "nat x < nat ?n" using assms(2-5) by simp_all
  note fn = fenced_nth[OF sq assms(2-5)]
  show ?thesis
    using assms(6,7) xy
    by (cases "claims g x y d") (auto simp: moved_def Let_def nth_modify_at[OF la] fn)
qed

lemma changed_cells_moved:
  assumes "game_ok g" and "0 \<le> x" "x < grid_size g" "0 \<le> y" "y < grid_size g"
    and "d \<in> set orientations" and "\<not> get_fence (grid g ! nat y ! nat x) d"
  shows "changed_cells (grid g) (grid (moved g x y d now)) =
           (case neighbour (grid_size g) x y d of
              None \<Rightarrow> {(nat y, nat x)}
            | Some p \<Rightarrow> {(nat y, nat x), p})"
proof -
  let ?n = "grid_size g"
  let ?m = "moved g x y d now"
  have sq: "square ?n (grid g)" and mi: "mirrored (grid g)"
    using assms(1) by (simp_all add: game_ok_def)
  have lg: "length (grid g) = nat ?n" using sq by (simp add: square_def)
  have rows: "\<And>j. j < nat ?n \<Longrightarrow> length (grid g ! j) = nat ?n" using square_rows[OF sq] .
  have xy: "nat y < nat ?n" "nat x < nat ?n" using assms(2-5) by simp_all
  have target: "grid ?m ! nat y ! nat x \<noteq> grid g ! nat y ! nat x"
  proof -
    have "get_fence (grid ?m ! nat y ! nat x) d"
      using get_set_fence[OF assms(6)]
      by (simp add: moved_grid_nth[OF assms(1-5) xy])
    then show ?thesis using assms(7) by metis
  qed
  have nbr: "grid ?m ! a ! b \<noteq> grid g ! a ! b" if "neighbour ?n x y d = Some (a, b)" for a b
  proof -
    have ab: "a < nat ?n" "b < nat ?n" "(a, b) \<noteq> (nat y, nat x)"
      using neighbour_in_grid[OF assms(2-5) that] by simp_all
    have old: "\<not> get_fence (grid g ! a ! b) (opposite d)"
      using mirrored_neighbour[OF sq mi assms(2-6) that] assms(7) by simp
    have "get_fence (grid ?m ! a ! b) (opposite d)"
      using get_set_fence[OF opposite_orientation[OF assms(6)]] ab(3) that
      by (auto simp: moved_grid_nth[OF assms(1-5) ab(1,2)])
    then show ?thesis using old by metis
  qed
  have other: "grid ?m ! a ! b = grid g ! a ! b"
    if "a < nat ?n" "b < nat ?n" "(a, b) \<noteq> (nat y, nat x)" "neighbour ?n x y d \<noteq> Some (a, b)" for a b
    using that(3,4) by (auto simp: moved_grid_nth[OF assms(1-5) that(1,2)])
  have "changed_cells (grid g) (grid ?m) =
      {p. p = (nat y, nat x) \<or> neighbour ?n x y d = Some p}"
  proof (rule set_eqI)
    fix p :: "nat \<times> nat"
    obtain a b where p: "p = (a, b)" by (cases p)
    show "p \<in> changed_cells (grid g) (grid ?m) \<longleftrightarrow>
          p \<in> {p. p = (nat y, nat x) \<or> neighbour ?n x y d = Some p}"
    proof (cases "a < nat ?n \<and> b < nat ?n")
      case True
      then show ?thesis
        using target nbr[of a b] other[of a b] lg rows[of a]
        by (auto simp: changed_cells_def p)
    next
      case False
      then have "neighbour ?n x y d \<noteq> Some (a, b)" "(a, b) \<noteq> (nat y, nat x)"
        using neighbour_in_grid[OF assms(2-5), of d a b] xy by auto
      then show ?thesis using False lg rows[of a] by (auto simp: changed_cells_def p)
    qed
  qed
  then show ?thesis by (auto split: option.splits)
qed

lemma place_fence_on_fence:
  assumes "\<not> lock_held s" and "map_of (games s) gid = Some g" and "gid \<noteq> []" and "game_ok g"
    and "0 \<le> x" "x < grid_size g" "0 \<le> y" "y < grid_size g" and "d \<in> set orientations"
    and "get_fence (grid g ! nat y ! nat x) d"
  shows "place_fence (Some gid) (Some x) (Some y) (Some d) p now s =
           Return (error_response
                     (if pid (players g ! current_player_index g) \<noteq> p then ''Not your turn''
                      else if game_over g then ''Game is over''
                      else ''Fence already exists'')) s"
proof -
  have fg: "find_game (s\<lparr>lock_held := True\<rparr>) (Some gid) = Some (gid, g)"
    using assms(2,3) by (simp add: find_game_Some)
  show ?thesis
    using assms(1,5-10)
    by (simp add: place_fence_def with_lock_unlocked place_fence_body_checks[OF fg assms(4)])
qed

lemma moved_grid_size [simp]: "grid_size (moved g x y d now) = grid_size g"
  by (simp add: moved_def Let_def)

lemma end_game_grid_size: "end_game g d = Some (g', d') \<Longrightarrow> grid_size g' = grid_size g"
  by (auto simp: end_game_def Let_def split: option.splits if_splits)

text \<open>
  Claim C9, as amended. A successful placement sets the named fence of the target cell,
  and the mirrored fence of the cell across it when there is one inside the grid: the
  target cell alone changes at the border, the target cell and its neighbour otherwise.
  A second placement at the same position and side, by anybody, succeeds never and
  changes nothing; its error is "Fence already exists" only when its sender holds the turn
  and the game is not over, since the turn and the end of the game are checked first.
\<close>

theorem fence_placement:
  assumes "reachable leaving s"
    and "place_fence (Some gid) (Some x) (Some y) (Some d) player_id now s = Return r s'"
    and "status r = ''success''"
    and "map_of (games s) gid = Some g" and "map_of (games s') gid = Some g'"
  shows "get_fence (grid g' ! nat y ! nat x) d \<and>
         (case neighbour (grid_size g) x y d of
            None \<Rightarrow> changed_cells (grid g) (grid g') = {(nat y, nat x)}
          | Some (j2, i2) \<Rightarrow>
              get_fence (grid g' ! j2 ! i2) (opposite d) \<and> (j2, i2) \<noteq> (nat y, nat x) \<and>
              changed_cells (grid g) (grid g') = {(nat y, nat x), (j2, i2)}) \<and>
         (\<forall>p now2.
            place_fence (Some gid) (Some x) (Some y) (Some d) p now2 s' =
              Return (error_response
                        (if pid (players g' ! current_player_index g') \<noteq> p then ''Not your turn''
                         else if game_over g' then ''Game is over''
                         else ''Fence already exists'')) s')"
proof -
  have ul: "\<not> lock_held s" using assms(1) by (rule reachable_unlocked)
  have oks: "all_games game_ok s"
    using reachable_inv[OF assms(1)] game_inv_ok by (rule all_games_mono)
  have "post (place_fence (Some gid) (Some x) (Some y) (Some d) player_id now s) = Some s'"
    using assms(2) by simp
  with assms(1) have re': "reachable leaving s'" by (rule r_place)
  have ul': "\<not> lock_held s'" using re' by (rule reachable_unlocked)
  have ok': "game_ok g'"
    using all_gamesD[OF reachable_inv[OF re'] assms(5)] by (rule game_inv_ok)
  from ul oks assms(2,3) show ?thesis
  proof (rule place_fence_success)
    fix gid0 g0 x0 y0 d0 g1
    assume a: "Some gid = Some gid0" "Some x = Some x0" "Some y = Some y0" "Some d = Some d0"
      "map_of (games s) gid0 = Some g0" "gid0 \<noteq> []" "game_ok g0"
      "0 \<le> x0" "x0 < grid_size g0" "0 \<le> y0" "y0 < grid_size g0" "d0 \<in> set orientations"
      "\<not> get_fence (grid g0 ! nat y0 ! nat x0) d0"
      "games s' = AList.update gid0 g1 (games s)"
      "if check_game_over (moved g0 x0 y0 d0 now)
       then end_game (moved g0 x0 y0 d0 now) (directory s) = Some (g1, directory s')
       else g1 = moved g0 x0 y0 d0 now \<and> directory s' = directory s"
    have eqs: "gid0 = gid" "x0 = x" "y0 = y" "d0 = d" "g0 = g"
      using a(1-5) assms(4) by simp_all
    have g1: "g1 = g'" using a(14) assms(5) eqs(1) by (simp add: update_conv')
    note b = a(6-13)[unfolded eqs]
    let ?m = "moved g x y d now"
    have gr: "grid g' = grid ?m" and gs: "grid_size g' = grid_size g"
      using a(15)[unfolded eqs g1] end_game_fields(2)[of ?m "directory s" g' "directory s'"]
        end_game_grid_size[of ?m "directory s" g' "directory s'"]
      by (auto split: if_splits)
    have xy: "nat y < nat (grid_size g)" "nat x < nat (grid_size g)" using b(3-6) by simp_all
    have 1: "get_fence (grid g' ! nat y ! nat x) d"
      using get_set_fence[OF b(7)] by (simp add: gr moved_grid_nth[OF b(2-6) xy])
    have 2: "get_fence (grid g' ! j2 ! i2) (opposite d) \<and> (j2, i2) \<noteq> (nat y, nat x)"
      if "neighbour (grid_size g) x y d = Some (j2, i2)" for j2 i2
    proof -
      have ab: "j2 < nat (grid_size g)" "i2 < nat (grid_size g)" "(j2, i2) \<noteq> (nat y, nat x)"
        using neighbour_in_grid[OF b(3-6) that] by simp_all
      show ?thesis
        using get_set_fence[OF opposite_orientation[OF b(7)]] ab(3) that
        by (auto simp: gr moved_grid_nth[OF b(2-6) ab(1,2)])
    qed
    have 3: "changed_cells (grid g) (grid g') =
           (case neighbour (grid_size g) x y d of
              None \<Rightarrow> {(nat y, nat x)}
            | Some p \<Rightarrow> {(nat y, nat x), p})"
      unfolding gr using b(2-8) by (rule changed_cells_moved)
    have 4: "place_fence (Some gid) (Some x) (Some y) (Some d) p now2 s' =
              Return (error_response
                        (if pid (players g' ! current_player_index g') \<noteq> p then ''Not your turn''
                         else if game_over g' then ''Game is over''
                         else ''Fence already exists'')) s'" for p now2
      using ul' assms(5) b(1) ok' b(3-6)[folded gs] b(7) 1 by (rule place_fence_on_fence)
    show ?thesis
      using 1 2 3 4 by (auto split: option.splits)
  qed
qed

lemma ex_east: "place_fence (Some ''g1'') (Some 0) (Some 0) (Some ''east'') ''A'' clock0 ex_joined
    = Return ex_east_response ex_east_state"
  unfolding ex_east_response_def ex_east_state_def ex_east_def by code_simp

lemma ex_east_game: "map_of (games ex_east_state) ''g1'' = Some ex_east_game"
  unfolding ex_east_game_def by code_simp

theorem fence_placement_witness:
  "reachable True ex_joined \<and>
   place_fence (Some ''g1'') (Some 0) (Some 0) (Some ''east'') ''A'' clock0 ex_joined
     = Return ex_east_response ex_east_state \<and>
   status ex_east_response = ''success'' \<and>
   map_of (games ex_joined) ''g1'' = Some ex_joined_game \<and>
   map_of (games ex_east_state) ''g1'' = Some ex_east_game \<and>
   neighbour (grid_size ex_joined_game) 0 0 ''east'' = Some (0, 1) \<and>
   get_fence (grid ex_east_game ! nat 0 ! nat 0) ''east'' \<and>
   (case neighbour (grid_size ex_joined_game) 0 0 ''east'' of
      None \<Rightarrow> changed_cells (grid ex_joined_game) (grid ex_east_game) = {(nat 0, nat 0)}
    | Some (j2, i2) \<Rightarrow>
        get_fence (grid ex_east_game ! j2 ! i2) (opposite ''east'') \<and> (j2, i2) \<noteq> (nat 0, nat 0) \<and>
        changed_cells (grid ex_joined_game) (grid ex_east_game) = {(nat 0, nat 0), (j2, i2)}) \<and>
   (\<forall>p now2.
      place_fence (Some ''g1'') (Some 0) (Some 0) (Some ''east'') p now2 ex_east_state =
        Return (error_response
                  (if pid (players ex_east_game ! current_player_index ex_east_game) \<noteq> p
                   then ''Not your turn''
                   else if game_over ex_east_game then ''Game is over''
                   else ''Fence already exists'')) ex_east_state)"
proof -
  have st: "status ex_east_response = ''success''"
    unfolding ex_east_response_def ex_east_def by code_simp
  have nb: "neighbour (grid_size ex_joined_game) 0 0 ''east'' = Some (0, 1)"
    unfolding ex_joined_game_def by code_simp
  note concl = fence_placement[OF ex_joined_reachable ex_east st ex_joined_game ex_east_game]
  show ?thesis
    by (intro conjI ex_joined_reachable ex_east st ex_joined_game ex_east_game nb
          conjunct1[OF concl] conjunct1[OF conjunct2[OF concl]] conjunct2[OF conjunct2[OF concl]])
qed

text \<open>
  Claim C9 as it was stated says that the second placement always fails with the
  fence-exists error. Ann's first move passes the turn to Bob: when she sends it again,
  the answer is "Not your turn". Bob's last move of the example run ends the game and
  leaves him the turn: when he sends it again, the answer is "Game is over".
\<close>

theorem second_placement_counterexample:
  "place_fence (Some ''g1'') (Some 1) (Some 0) (Some ''north'') ''A'' clock0 ex_joined
     = Return ex_move1_response ex_move1_state \<and>
   status ex_move1_response = ''success'' \<and>
   place_fence (Some ''g1'') (Some 1) (Some 0) (Some ''north'') ''A'' clock0 ex_move1_state
     = Return (error_response ''Not your turn'') ex_move1_state \<and>
   place_fence (Some ''g1'') (Some 1) (Some 1) (Some ''south'') ''B'' clock0 ex_eleven
     = Return ex_move12_response ex_move12_state \<and>
   status ex_move12_response = ''success'' \<and>
   place_fence (Some ''g1'') (Some 1) (Some 1) (Some ''south'') ''B'' clock0 ex_move12_state
     = Return (error_response ''Game is over'') ex_move12_state \<and>
   message (error_response ''Not your turn'') \<noteq> ''Fence already exists'' \<and>
   message (error_response ''Game is over'') \<noteq> ''Fence already exists''"
proof -
  have 1: "status ex_move1_response = ''success''"
    unfolding ex_move1_response_def ex_move1_def by code_simp
  have 2: "place_fence (Some ''g1'') (Some 1) (Some 0) (Some ''north'') ''A'' clock0 ex_move1_state
     = Return (error_response ''Not your turn'') ex_move1_state"
    unfolding ex_move1_state_def ex_move1_def by code_simp
  have 3: "status ex_move12_response = ''success''"
    unfolding ex_move12_response_def ex_move12_def by code_simp
  have 4: "place_fence (Some ''g1'') (Some 1) (Some 1) (Some ''south'') ''B'' clock0 ex_move12_state
     = Return (error_response ''Game is over'') ex_move12_state"
    unfolding ex_move12_state_def ex_move12_def by code_simp
  have 5: "message (error_response ''Not your turn'') \<noteq> ''Fence already exists''"
    "message (error_response ''Game is over'') \<noteq> ''Fence already exists''"
    by (simp_all add: error_response_def)
  show ?thesis
    by (intro conjI ex_move1 1 2 ex_move12 3 4 5)
qed

section \<open>Scores and owned land\<close>

text \<open>
  Claim C2, as amended. As long as no player leaves (states reached by creating, joining,
  placing fences and timeouts) the scores of the seated players add up to the value of
  the owned cells. A player who leaves takes the score along while the cells stay owned:
  with leaving, the seated scores add up to at most the value of the owned cells.
\<close>

theorem score_conservation:
  assumes "reachable leaving s" and "map_of (games s) gid = Some g"
  shows "score_sum g \<le> owned_value g \<and> (\<not> leaving \<longrightarrow> score_sum g = owned_value g)"
proof -
  have "game_inv leaving g"
    using reachable_inv[OF assms(1)] assms(2) by (rule all_gamesD)
  then show ?thesis by (simp add: game_inv_def)
qed

theorem score_conservation_witness:
  "reachable False ex_final \<and> map_of (games ex_final) ''g1'' = Some ex_final_game \<and>
   score_sum ex_final_game \<le> owned_value ex_final_game \<and>
   score_sum ex_final_game = owned_value ex_final_game \<and>
   score_sum ex_final_game = 3"
proof -
  have v: "score_sum ex_final_game = 3"
    unfolding ex_final_game_def by code_simp
  note concl = score_conservation[OF ex_final_reachable[of False] ex_final_game]
  have e: "score_sum ex_final_game = owned_value ex_final_game"
    using conjunct2[OF concl] by simp
  show ?thesis
    by (intro conjI ex_final_reachable ex_final_game conjunct1[OF concl] e v)
qed

lemma ex_left_run: "post (handle_player_disconnect ''A'' ''g1'' ex_middle) = Some ex_left"
  unfolding ex_left_def by code_simp

lemma ex_left_reachable: "reachable True ex_left"
  using _ ex_middle_reachable ex_left_run by (rule r_disconnect) simp

text \<open>
  Claim C2 as it was stated covers leaving. After seven moves of the example run Ann has
  claimed a cell of value 1; she disconnects, Bob stays with score 0, the cell stays owned.
\<close>

theorem score_conservation_counterexample:
  "reachable True ex_left \<and> map_of (games ex_left) ''g1'' = Some ex_left_game \<and>
   score_sum ex_left_game = 0 \<and> owned_value ex_left_game = 1"
proof -
  have g: "map_of (games ex_left) ''g1'' = Some ex_left_game"
    unfolding ex_left_game_def by code_simp
  have s: "score_sum ex_left_game = 0" unfolding ex_left_game_def by code_simp
  have v: "owned_value ex_left_game = 1" unfolding ex_left_game_def by code_simp
  show ?thesis by (intro conjI ex_left_reachable g s v)
qed

section \<open>When moves and timeouts apply\<close>

lemma timeout_game_cases:
  assumes "timeout_game t g = Some g'"
  shows "grid g' = grid g" "players g' = players g" "game_over g \<Longrightarrow> g' = g"
    "current_player_index g' \<noteq> current_player_index g \<Longrightarrow>
       \<not> game_over g \<and> t - turn_start_time g > 60"
  using assms by (auto simp: timeout_game_def split: if_splits option.splits)

lemma check_inactivity_games:
  assumes "reachable leaving s"
  shows "\<exists>s'. check_inactivity t s = Return () s' \<and>
           (\<forall>gid g. map_of (games s) gid = Some g \<longrightarrow>
              (\<exists>g'. map_of (games s') gid = Some g' \<and> timeout_game t g = Some g'))"
proof -
  have ul: "\<not> lock_held s" using assms by (rule reachable_unlocked)
  have inv: "all_games (game_inv leaving) s" using assms by (rule reachable_inv)
  have di: "distinct (map fst (games s))" using inv by (simp add: all_games_def)
  have "\<forall>p \<in> set (games s). game_inv leaving (snd p)"
    using inv di by (auto simp: all_games_def)
  from timeout_games_inv[OF this, of t] obtain gs' where
    gs': "timeout_games t (games s) = (False, gs')" "map fst gs' = map fst (games s)"
      "\<forall>k g'. (k, g') \<in> set gs' \<longrightarrow>
         (\<exists>g. (k, g) \<in> set (games s) \<and> timeout_game t g = Some g' \<and> game_inv leaving g')"
    by blast
  let ?s' = "s\<lparr>games := gs'\<rparr>"
  have res: "check_inactivity t s = Return () ?s'"
    using ul gs'(1) by (simp add: check_inactivity_def with_lock_unlocked)
  have "\<exists>g'. map_of gs' gid = Some g' \<and> timeout_game t g = Some g'"
    if "map_of (games s) gid = Some g" for gid g
  proof -
    have "gid \<in> fst ` set gs'"
      using map_of_SomeD[OF that] gs'(2) by (metis fst_conv image_eqI set_map)
    then obtain g' where g': "map_of gs' gid = Some g'"
      by (metis domD dom_map_of_conv_image_fst)
    then have "(gid, g') \<in> set gs'" by (rule map_of_SomeD)
    then obtain g0 where g0: "(gid, g0) \<in> set (games s)" "timeout_game t g0 = Some g'"
      using gs'(3) by blast
    have "map_of (games s) gid = Some g0" using di g0(1) by simp
    then have "g0 = g" using that by simp
    then show ?thesis using g' g0(2) by simp
  qed
  then show ?thesis using res by auto
qed

text \<open>
  Claim C3, as amended. A move is applied only to a game that is not over and only for
  the player who holds the turn; every other answer is an error that changes nothing.
  The number of seated players is not compared with the capacity of the game. The
  inactivity check returns, changes no grid and no player (so no score), and changes the
  turn index only of games that are not over and whose turn began more than 60 seconds
  before.
\<close>

theorem move_and_timeout_gating:
  assumes "reachable leaving s"
  shows "(\<forall>gid x_opt y_opt o_opt player_id now r s' g.
            place_fence (Some gid) x_opt y_opt o_opt player_id now s = Return r s' \<longrightarrow>
            map_of (games s) gid = Some g \<longrightarrow>
            (if status r = ''success''
             then \<not> game_over g \<and> pid (players g ! current_player_index g) = player_id
             else s' = s)) \<and>
         (\<forall>t. \<exists>s'. check_inactivity t s = Return () s' \<and>
            (\<forall>gid g. map_of (games s) gid = Some g \<longrightarrow>
               (\<exists>g'. map_of (games s') gid = Some g' \<and>
                  grid g' = grid g \<and> players g' = players g \<and>
                  (current_player_index g' \<noteq> current_player_index g \<longrightarrow>
                     \<not> game_over g \<and> t - turn_start_time g > 60))))"
proof (intro conjI allI impI)
  fix gid x_opt y_opt o_opt player_id now r s' g
  assume res: "place_fence (Some gid) x_opt y_opt o_opt player_id now s = Return r s'"
    and g: "map_of (games s) gid = Some g"
  have ul: "\<not> lock_held s" using assms by (rule reachable_unlocked)
  have oks: "all_games game_ok s"
    using reachable_inv[OF assms] game_inv_ok by (rule all_games_mono)
  show "if status r = ''success''
        then \<not> game_over g \<and> pid (players g ! current_player_index g) = player_id
        else s' = s"
  proof (cases "status r = ''success''")
    case True
    from ul oks res True have "\<not> game_over g \<and> pid (players g ! current_player_index g) = player_id"
    proof (rule place_fence_success)
      fix gid0 g0
      assume "Some gid = Some gid0" "map_of (games s) gid0 = Some g0"
        "pid (players g0 ! current_player_index g0) = player_id" "\<not> game_over g0"
      then show ?thesis using g by simp
    qed
    then show ?thesis using True by simp
  next
    case False
    from place_fence_outcome[OF ul oks, of "Some gid" x_opt y_opt o_opt player_id now]
    have "s' = s"
    proof (elim disjE exE conjE)
      fix m assume "place_fence (Some gid) x_opt y_opt o_opt player_id now s = Return (error_response m) s"
      then show ?thesis using res by simp
    next
      fix gid0 g0 x y d
      assume a: "Some gid = Some gid0" "x_opt = Some x" "y_opt = Some y" "o_opt = Some d"
        "map_of (games s) gid0 = Some g0" "gid0 \<noteq> []"
        "pid (players g0 ! current_player_index g0) = player_id" "\<not> game_over g0"
        "0 \<le> x" "x < grid_size g0" "0 \<le> y" "y < grid_size g0" "d \<in> set orientations"
        "\<not> get_fence (grid g0 ! nat y ! nat x) d"
      have ok: "game_ok g0" using all_gamesD[OF oks a(5)] .
      from place_fence_accepted[OF ul a(5,6) ok a(7-14), of now]
      have "status r = ''success''" using res a(1-4) by auto
      then show ?thesis using False by simp
    qed
    then show ?thesis using False by simp
  qed
next
  fix t
  from check_inactivity_games[OF assms, of t] obtain s' where
    s': "check_inactivity t s = Return () s'"
    "\<forall>gid g. map_of (games s) gid = Some g \<longrightarrow>
              (\<exists>g'. map_of (games s') gid = Some g' \<and> timeout_game t g = Some g')"
    by blast
  have "\<exists>g'. map_of (games s') gid = Some g' \<and>
                  grid g' = grid g \<and> players g' = players g \<and>
                  (current_player_index g' \<noteq> current_player_index g \<longrightarrow>
                     \<not> game_over g \<and> t - turn_start_time g > 60)"
    if "map_of (games s) gid = Some g" for gid g
  proof -
    from s'(2) that obtain g' where g': "map_of (games s') gid = Some g'" "timeout_game t g = Some g'"
      by blast
    show ?thesis using g'(1) timeout_game_cases[OF g'(2)] by blast
  qed
  then show "\<exists>s'. check_inactivity t s = Return () s' \<and>
            (\<forall>gid g. map_of (games s) gid = Some g \<longrightarrow>
               (\<exists>g'. map_of (games s') gid = Some g' \<and>
                  grid g' = grid g \<and> players g' = players g \<and>
                  (current_player_index g' \<noteq> current_player_index g \<longrightarrow>
                     \<not> game_over g \<and> t - turn_start_time g > 60)))"
    using s'(1) by blast
qed

theorem move_and_timeout_gating_witness:
  "reachable True ex_joined \<and>
   place_fence (Some ''g1'') (Some 1) (Some 0) (Some ''north'') ''A'' clock0 ex_joined
     = Return ex_move1_response ex_move1_state \<and>
   map_of (games ex_joined) ''g1'' = Some ex_joined_game \<and>
   status ex_move1_response = ''success'' \<and>
   \<not> game_over ex_joined_game \<and>
   pid (players ex_joined_game ! current_player_index ex_joined_game) = ''A'' \<and>
   (\<exists>s' g'. check_inactivity 100 ex_joined = Return () s' \<and>
      map_of (games s') ''g1'' = Some g' \<and>
      grid g' = grid ex_joined_game \<and> players g' = players ex_joined_game)"
proof -
  have st: "status ex_move1_response = ''success''"
    unfolding ex_move1_response_def ex_move1_def by code_simp
  note concl = move_and_timeout_gating[OF ex_joined_reachable[of True]]
  have "if status ex_move1_response = ''success''
        then \<not> game_over ex_joined_game \<and>
             pid (players ex_joined_game ! current_player_index ex_joined_game) = ''A''
        else ex_move1_state = ex_joined"
    using conjunct1[OF concl] ex_move1 ex_joined_game by blast
  then have a: "\<not> game_over ex_joined_game"
    "pid (players ex_joined_game ! current_player_index ex_joined_game) = ''A''"
    using st by simp_all
  from conjunct2[OF concl] obtain s' where
    s': "check_inactivity 100 ex_joined = Return () s'"
      "\<forall>gid g. map_of (games ex_joined) gid = Some g \<longrightarrow>
         (\<exists>g'. map_of (games s') gid = Some g' \<and>
            grid g' = grid g \<and> players g' = players g \<and>
            (current_player_index g' \<noteq> current_player_index g \<longrightarrow>
               \<not> game_over g \<and> 100 - turn_start_time g > 60))"
    by blast
  from s'(2) ex_joined_game obtain g' where
    "map_of (games s') ''g1'' = Some g'" "grid g' = grid ex_joined_game"
    "players g' = players ex_joined_game"
    by blast
  with s'(1) have b: "\<exists>s' g'. check_inactivity 100 ex_joined = Return () s' \<and>
      map_of (games s') ''g1'' = Some g' \<and>
      grid g' = grid ex_joined_game \<and> players g' = players ex_joined_game"
    by blast
  show ?thesis
    by (intro conjI ex_joined_reachable ex_move1 ex_joined_game st a b)
qed

lemma ex_created_game: "map_of (games ex_created) ''g1'' = Some ex_created_game"
  unfolding ex_created_game_def by code_simp

lemma ex_solo: "place_fence (Some ''g1'') (Some 0) (Some 0) (Some ''north'') ''A'' clock0 ex_created
    = Return ex_solo_response ex_solo_state"
  unfolding ex_solo_response_def ex_solo_state_def ex_solo_def by code_simp

lemma ex_solo_game: "map_of (games ex_solo_state) ''g1'' = Some ex_solo_game"
  unfolding ex_solo_game_def by code_simp

lemma ex_lobby_game: "map_of (games ex_lobby) ''g3'' = Some ex_lobby_game"
  unfolding ex_lobby_game_def by code_simp

lemma ex_swept: "check_inactivity 100 ex_lobby = Return () ex_swept"
  unfolding ex_swept_def by code_simp

lemma ex_swept_game: "map_of (games ex_swept) ''g3'' = Some ex_swept_game"
  unfolding ex_swept_game_def by code_simp

text \<open>
  Claim C3 as it was stated ties moves and forced advances to a full game. Ann, alone in
  a game for two, places a fence: the move succeeds and the fence is on the grid. In a
  game for three with two players seated, the inactivity check moves the turn from seat
  0 to seat 1.
\<close>

theorem joining_session_counterexample:
  "map_of (games ex_created) ''g1'' = Some ex_created_game \<and>
   num_players ex_created_game = 2 \<and> length (players ex_created_game) = 1 \<and>
   place_fence (Some ''g1'') (Some 0) (Some 0) (Some ''north'') ''A'' clock0 ex_created
     = Return ex_solo_response ex_solo_state \<and>
   status ex_solo_response = ''success'' \<and>
   map_of (games ex_solo_state) ''g1'' = Some ex_solo_game \<and>
   \<not> north (grid ex_created_game ! 0 ! 0) \<and> north (grid ex_solo_game ! 0 ! 0) \<and>
   map_of (games ex_lobby) ''g3'' = Some ex_lobby_game \<and>
   num_players ex_lobby_game = 3 \<and> length (players ex_lobby_game) = 2 \<and>
   current_player_index ex_lobby_game = 0 \<and>
   check_inactivity 100 ex_lobby = Return () ex_swept \<and>
   map_of (games ex_swept) ''g3'' = Some ex_swept_game \<and>
   current_player_index ex_swept_game = 1"
proof -
  have 1: "num_players ex_created_game = 2" "length (players ex_created_game) = 1"
    "\<not> north (grid ex_created_game ! 0 ! 0)"
    unfolding ex_created_game_def by code_simp+
  have 2: "status ex_solo_response = ''success''"
    unfolding ex_solo_response_def ex_solo_def by code_simp
  have 3: "north (grid ex_solo_game ! 0 ! 0)"
    unfolding ex_solo_game_def by code_simp
  have 4: "num_players ex_lobby_game = 3" "length (players ex_lobby_game) = 2"
    "current_player_index ex_lobby_game = 0"
    unfolding ex_lobby_game_def by code_simp+
  have 5: "current_player_index ex_swept_game = 1"
    unfolding ex_swept_game_def by code_simp
  show ?thesis
    by (intro conjI ex_created_game 1 ex_solo 2 ex_solo_game 3 ex_lobby_game 4 ex_swept
          ex_swept_game 5)
qed

section \<open>The player directory\<close>









lemma ex_forfeit: "handle_player_disconnect ''B'' ''g1'' ex_move12_state
    = Return ex_forfeit_response ex_forfeit_state"
  unfolding ex_forfeit_response_def ex_forfeit_state_def ex_forfeit_def by code_simp




section \<open>Enclosed cells\<close>

lemma ex_four_run: "play (take 4 moves12) ex_joined = Some ex_four"
  unfolding ex_four_def by code_simp

lemma ex_four_reachable: "reachable leaving ex_four"
  using ex_joined_reachable ex_four_run by (rule play_reachable)

text \<open>
  Claim C1 says that no cell ever has its four fences and no owner, and that every cell
  has an owner when \<^verbatim>\<open>check_game_over\<close> holds. \<^verbatim>\<open>place_fence\<close> looks for an enclosure
  at the target cell only, not at the neighbour whose mirrored fence it has just set.
  In the example run the first three moves put the north, east and south fence on the
  cell in column 1 of row 0; the fourth move is the east fence of the cell in column 0,
  whose mirror is the missing west fence. That cell is enclosed and has no owner, after
  the fourth move and still when all twelve fences are placed and the game is over.
\<close>

theorem enclosed_cell_without_owner:
  "reachable True ex_four \<and> map_of (games ex_four) ''g1'' = Some ex_four_game \<and>
   four_fences (grid ex_four_game ! 0 ! 1) \<and> owner (grid ex_four_game ! 0 ! 1) = None \<and>
   reachable True ex_final \<and> map_of (games ex_final) ''g1'' = Some ex_final_game \<and>
   check_game_over ex_final_game \<and> game_over ex_final_game \<and>
   four_fences (grid ex_final_game ! 0 ! 1) \<and> owner (grid ex_final_game ! 0 ! 1) = None"
proof -
  have g4: "map_of (games ex_four) ''g1'' = Some ex_four_game"
    unfolding ex_four_game_def by code_simp
  have 1: "four_fences (grid ex_four_game ! 0 ! 1)" "owner (grid ex_four_game ! 0 ! 1) = None"
    unfolding ex_four_game_def by code_simp+
  have 2: "check_game_over ex_final_game" "game_over ex_final_game"
    "four_fences (grid ex_final_game ! 0 ! 1)" "owner (grid ex_final_game ! 0 ! 1) = None"
    unfolding ex_final_game_def by code_simp+
  show ?thesis
    by (intro conjI ex_four_reachable g4 1 ex_final_reachable ex_final_game 2)
qed

end
